theory Spec2Isabelle
  imports Complex_Main "HOL-Library.Multiset" "HOL-Library.Word" "HOL-Library.Monad_Syntax"
begin

unbundle bit_operations_syntax

section \<open>Channel matching and attribution of the channel service\<close>

text \<open>
  A shallow embedding of the matching engine (\<^verbatim>\<open>MatchingService\<close> in
  \<^verbatim>\<open>services/channel-service/internal/handlers/handlers.go\<close>) and of two functions of
  the attribution service (\<^verbatim>\<open>services/channel-service/internal/services/channel_service.go\<close>).

  Conventions of the model:
  \<^item> Go's \<^verbatim>\<open>float64\<close> is the type \<^typ>\<open>real\<close>: arithmetic is exact, and the values
    NaN and the infinities do not exist. Where the source divides, a second definition
    with a checked division makes "the divisor is zero" an explicit outcome.
  \<^item> Go structs are records that keep the fields the modelled functions read; a pointer
    field that may be nil is an \<open>option\<close>.
  \<^item> The Redis server, the UUID generator and the clock are outside the repository: the
    store is an explicit map that is passed through, the generator is a function from a
    counter to identifiers, and the clock reading of a call (Unix seconds) is a parameter.
  \<^item> Go's \<^verbatim>\<open>int\<close> is \<^typ>\<open>int\<close> where the code only compares or stores it. Where
    the code multiplies (a number of seconds becomes a \<^verbatim>\<open>time.Duration\<close>), the product
    wraps at 64 bits as in Go.
\<close>

subsection \<open>The channel model (package models)\<close>

record ChannelCompliance =
  KYCRequired :: bool
  MinimumNetWorth :: real

record TradingFees =
  Maker :: real
  Taker :: real
  Flat :: real

record WithdrawalFees =
  Crypto :: real
  Fiat :: real
  Wire :: real

record ChannelFees =
  Trading :: TradingFees
  Withdrawal :: WithdrawalFees

record PaymentMethod =
  Method :: string

record ChannelSupport =
  Phone :: string
  Chat :: bool
  ResponseTime :: string

record ChannelAPI =
  HasReadOnlyAPI :: bool
  HasTradingAPI :: bool

record Insurance =
  Coverage :: real
  Provider :: string

record CustodyInfo =
  Segregation :: bool

record Audit =
  Auditor :: string
  Scope :: string

record ChannelSecurity =
  Insurance :: "Insurance option"
  Custody :: CustodyInfo
  Audits :: "Audit list"

record Channel =
  ID :: string
  Type :: string
  Website :: string
  Compliance :: ChannelCompliance
  Fees :: ChannelFees
  PaymentMethods :: "PaymentMethod list"
  Support :: ChannelSupport
  API :: "ChannelAPI option"
  Security :: ChannelSecurity

subsection \<open>Requests and results of the matching service\<close>

record MatchingRequest =
  AssetID :: string
  Amount :: real
  UserRegion :: string
  KYCLevel :: string
  PaymentMethod :: string
  UserID :: string

record FeeEstimate =
  TradingFee :: real
  WithdrawalFee :: real
  TotalFee :: real
  Currency :: string

record ChannelAvailability =
  Available :: bool
  Reasons :: "string list"

text \<open>The values of the parameter map of a redirect (\<^verbatim>\<open>map[string]interface{}\<close>).\<close>

datatype param = PString string | PFloat real | PInt int

record RedirectInfo =
  URL :: string
  HTTPMethod :: string
  Parameters :: "(string \<times> param) list"
  ExpiresAt :: int

record ProcessingTime =
  KYC :: string
  Deposit :: string
  Trade :: string
  WithdrawalTime :: string

record MatchingResult =
  ChannelID :: string
  Channel :: Channel
  MatchScore :: real
  EstimatedFees :: FeeEstimate
  Availability :: ChannelAvailability
  RedirectInfo :: RedirectInfo
  ProcessingTime :: ProcessingTime

record Config =
  MaxMatchingResults :: int
  MinMatchingScore :: real
  RedirectExpiration :: int
  AttributionWindow :: int

text \<open>The defaults that \<^verbatim>\<open>setDefaults\<close> registers for the four options.\<close>

definition setDefaults :: Config where
  "setDefaults = \<lparr>MaxMatchingResults = 10, MinMatchingScore = 0.6,
     RedirectExpiration = 3600, AttributionWindow = 86400\<rparr>"

subsection \<open>The five sub-scores\<close>

definition calculateFeeScore :: "Channel \<Rightarrow> real \<Rightarrow> real" where
  "calculateFeeScore channel amount =
     (let tradingFee = amount * Taker (Trading (Fees channel));
          withdrawalFee = Crypto (Withdrawal (Fees channel));
          totalFee = tradingFee + withdrawalFee;
          maxFee = amount * 0.01;
          minFee = amount * 0.0001
      in if totalFee \<le> minFee then 1.0
         else if totalFee \<ge> maxFee then 0.0
         else 1.0 - (totalFee - minFee) / (maxFee - minFee))"

text \<open>
  The same function with the division checked: \<open>None\<close> stands for a division by zero
  (where \<^verbatim>\<open>float64\<close> would produce an infinity or NaN instead of a number).
\<close>

definition fdiv :: "real \<Rightarrow> real \<Rightarrow> real option" where
  "fdiv x y = (if y = 0 then None else Some (x / y))"

definition calculateFeeScore_checked :: "Channel \<Rightarrow> real \<Rightarrow> real option" where
  "calculateFeeScore_checked channel amount =
     (let tradingFee = amount * Taker (Trading (Fees channel));
          withdrawalFee = Crypto (Withdrawal (Fees channel));
          totalFee = tradingFee + withdrawalFee;
          maxFee = amount * 0.01;
          minFee = amount * 0.0001
      in if totalFee \<le> minFee then Some 1.0
         else if totalFee \<ge> maxFee then Some 0.0
         else map_option (\<lambda>q. 1.0 - q) (fdiv (totalFee - minFee) (maxFee - minFee)))"

text \<open>
  The loop over \<^verbatim>\<open>channel.PaymentMethods\<close> that sets \<^verbatim>\<open>supportedPayment\<close> and
  breaks at the first method equal to the requested one.
\<close>

fun supportedPayment :: "PaymentMethod list \<Rightarrow> string \<Rightarrow> bool" where
  "supportedPayment [] requested = False"
| "supportedPayment (method # methods) requested =
     (if Method method = requested then True else supportedPayment methods requested)"

definition calculateAvailabilityScore :: "Channel \<Rightarrow> MatchingRequest \<Rightarrow> real" where
  "calculateAvailabilityScore channel request =
     (let score = 1.0;
          score = (if KYCRequired (Compliance channel) \<and> KYCLevel request = []
                   then score - 0.3 else score);
          score = (if MinimumNetWorth (Compliance channel) > 0 then score - 0.1 else score);
          score = (if \<not> supportedPayment (PaymentMethods channel) (PaymentMethod request)
                   then score - 0.4 else score)
      in max 0 score)"

definition calculateUXScore :: "Channel \<Rightarrow> MatchingRequest \<Rightarrow> real" where
  "calculateUXScore channel request =
     (let score = 0.0;
          score = (case API channel of
                     None \<Rightarrow> score
                   | Some api \<Rightarrow> if HasTradingAPI api then score + 0.3 else score);
          score = (if Chat (Support channel) then score + 0.2 else score);
          score = (if Phone (Support channel) \<noteq> [] then score + 0.2 else score);
          score = (if ResponseTime (Support channel) = ''instant'' then score + 0.3
                   else if ResponseTime (Support channel) = ''1hour'' then score + 0.2
                   else score + 0.1)
      in score)"

definition calculateSecurityScore :: "Channel \<Rightarrow> real" where
  "calculateSecurityScore channel =
     (let score = 0.0;
          score = (case Insurance (Security channel) of
                     None \<Rightarrow> score
                   | Some ins \<Rightarrow> if Coverage ins > 0 then score + 0.4 else score);
          score = (if Segregation (Custody (Security channel)) then score + 0.3 else score);
          score = (if length (Audits (Security channel)) > 0 then score + 0.3 else score)
      in score)"

definition calculateLiquidityScore :: "Channel \<Rightarrow> string \<Rightarrow> real \<Rightarrow> real" where
  "calculateLiquidityScore channel assetID amount =
     (if Type channel = ''exchange'' then 0.9
      else if Type channel = ''broker'' then 0.7
      else if Type channel = ''dex'' then 0.6
      else 0.5)"

text \<open>
  The accumulation at the head of \<^verbatim>\<open>calculateChannelMatch\<close>: the pair of the local
  variables \<^verbatim>\<open>score\<close> and \<^verbatim>\<open>maxScore\<close> after the five weighted additions.
\<close>

definition weightedScores :: "Channel \<Rightarrow> MatchingRequest \<Rightarrow> real \<times> real" where
  "weightedScores channel request =
     (let score = 0.0; maxScore = 0.0;
          feeScore = calculateFeeScore channel (Amount request);
          score = score + feeScore * 0.3;
          maxScore = maxScore + 0.3;
          availabilityScore = calculateAvailabilityScore channel request;
          score = score + availabilityScore * 0.25;
          maxScore = maxScore + 0.25;
          uxScore = calculateUXScore channel request;
          score = score + uxScore * 0.2;
          maxScore = maxScore + 0.2;
          securityScore = calculateSecurityScore channel;
          score = score + securityScore * 0.15;
          maxScore = maxScore + 0.15;
          liquidityScore = calculateLiquidityScore channel (AssetID request) (Amount request);
          score = score + liquidityScore * 0.1;
          maxScore = maxScore + 0.1
      in (score, maxScore))"

definition normalizedScore :: "Channel \<Rightarrow> MatchingRequest \<Rightarrow> real" where
  "normalizedScore channel request =
     (case weightedScores channel request of (score, maxScore) \<Rightarrow> score / maxScore)"

definition calculateFeeEstimate :: "Channel \<Rightarrow> real \<Rightarrow> FeeEstimate" where
  "calculateFeeEstimate channel amount =
     (let tradingFee = amount * Taker (Trading (Fees channel));
          withdrawalFee = Crypto (Withdrawal (Fees channel))
      in \<lparr>TradingFee = tradingFee, WithdrawalFee = withdrawalFee,
          TotalFee = tradingFee + withdrawalFee, Currency = ''USD''\<rparr>)"

definition checkChannelAvailability :: "Channel \<Rightarrow> MatchingRequest \<Rightarrow> ChannelAvailability" where
  "checkChannelAvailability channel request =
     (let availability = \<lparr>Available = True, Reasons = []\<rparr>;
          availability =
            (if KYCRequired (Compliance channel) \<and> KYCLevel request = []
             then \<lparr>Available = False,
                   Reasons = Reasons availability @ [''KYC verification required'']\<rparr>
             else availability);
          availability =
            (if \<not> supportedPayment (PaymentMethods channel) (PaymentMethod request)
             then \<lparr>Available = False,
                   Reasons = Reasons availability @ [''Payment method not supported'']\<rparr>
             else availability)
      in availability)"

definition estimateProcessingTime :: "Channel \<Rightarrow> MatchingRequest \<Rightarrow> ProcessingTime" where
  "estimateProcessingTime channel request =
     (if KYCRequired (Compliance channel)
      then \<lparr>KYC = ''1-3 days'', Deposit = ''1-2 hours'', Trade = ''instant'',
            WithdrawalTime = ''1-24 hours''\<rparr>
      else \<lparr>KYC = ''not required'', Deposit = ''instant'', Trade = ''instant'',
            WithdrawalTime = ''1-24 hours''\<rparr>)"

subsection \<open>The Redis store\<close>

text \<open>
  The values the modelled functions keep in Redis: the JSON object that
  \<^verbatim>\<open>cacheRedirectInfo\<close> writes (redirect descriptor, request, creation instant), lists,
  and the integer and float counters. An entry carries the instant at which it expires, if
  any, in Unix milliseconds (the unit in which Redis keeps it); the clock reading \<open>now\<close>
  of a command is in Unix seconds. A key whose expiry has passed is absent.
\<close>

datatype redis_value =
    RedirectData RedirectInfo MatchingRequest int
  | RList "string list"
  | RInt int
  | RFloat real

type_synonym redis = "string \<rightharpoonup> (redis_value \<times> int option)"

definition redis_lookup :: "redis \<Rightarrow> int \<Rightarrow> string \<Rightarrow> (redis_value \<times> int option) option" where
  "redis_lookup r now k =
     (case r k of
        None \<Rightarrow> None
      | Some (v, None) \<Rightarrow> Some (v, None)
      | Some (v, Some t) \<Rightarrow> if now * 1000 < t then Some (v, Some t) else None)"

text \<open>
  Durations. \<^verbatim>\<open>time.Duration(n) * time.Second\<close> is a product of two \<^verbatim>\<open>int64\<close>
  values, in nanoseconds, and wraps: \<open>secondsDuration n\<close> is the duration the code
  computes from a configured number \<open>n\<close> of seconds. \<open>goDiv\<close> is Go's integer division,
  which truncates towards zero. \<^verbatim>\<open>formatSec\<close>, \<^verbatim>\<open>formatMs\<close> and \<^verbatim>\<open>usePrecise\<close> are
  the functions of go-redis (v8, \<^verbatim>\<open>commands.go\<close>) that turn a duration into the argument
  of a command.
\<close>

definition secondsDuration :: "int \<Rightarrow> int" where
  "secondsDuration n = sint (word_of_int (n * 1000000000) :: 64 word)"

definition goDiv :: "int \<Rightarrow> int \<Rightarrow> int" where
  "goDiv a b = sgn a * sgn b * (\<bar>a\<bar> div \<bar>b\<bar>)"

definition usePrecise :: "int \<Rightarrow> bool" where
  "usePrecise dur \<longleftrightarrow> dur < 1000000000 \<or> dur mod 1000000000 \<noteq> 0"

definition formatMs :: "int \<Rightarrow> int" where
  "formatMs dur = (if dur > 0 \<and> dur < 1000000 then 1 else goDiv dur 1000000)"

definition formatSec :: "int \<Rightarrow> int" where
  "formatSec dur = (if dur > 0 \<and> dur < 1000000000 then 1 else goDiv dur 1000000000)"

text \<open>
  \<^verbatim>\<open>Set(key, value, expiration)\<close> of go-redis: a positive expiration is sent as
  \<^verbatim>\<open>PX\<close> milliseconds or \<^verbatim>\<open>EX\<close> seconds, the expiration \<^verbatim>\<open>KeepTTL\<close> (\<open>-1\<close>) keeps
  the expiry the key has, and any other expiration sends none, so that the key does not
  expire. \<open>setExpiry\<close> is the expiry of the key after a \<^verbatim>\<open>Set\<close> with a duration that is
  not \<^verbatim>\<open>KeepTTL\<close>.
\<close>

definition setExpiry :: "int \<Rightarrow> int \<Rightarrow> int option" where
  "setExpiry now expiration =
     (if expiration > 0
      then Some (now * 1000 + (if usePrecise expiration then formatMs expiration
                               else formatSec expiration * 1000))
      else None)"

definition redis_Set :: "redis \<Rightarrow> int \<Rightarrow> string \<Rightarrow> redis_value \<Rightarrow> int \<Rightarrow> redis" where
  "redis_Set r now k v expiration =
     r(k \<mapsto> (v, if expiration > 0 then setExpiry now expiration
                 else if expiration = - 1
                      then (case redis_lookup r now k of None \<Rightarrow> None | Some (old, e) \<Rightarrow> e)
                      else None))"

text \<open>\<^verbatim>\<open>LPUSH\<close> puts the element at the head; on a key of another type it fails and changes nothing.\<close>

definition redis_LPush :: "redis \<Rightarrow> int \<Rightarrow> string \<Rightarrow> string \<Rightarrow> redis" where
  "redis_LPush r now k x =
     (case redis_lookup r now k of
        None \<Rightarrow> r(k \<mapsto> (RList [x], None))
      | Some (RList xs, e) \<Rightarrow> r(k \<mapsto> (RList (x # xs), e))
      | Some (_, e) \<Rightarrow> r)"

text \<open>
  The index range of \<^verbatim>\<open>LRANGE\<close> and \<^verbatim>\<open>LTRIM\<close>: both ends inclusive, a negative index
  counts from the end of the list.
\<close>

definition list_range :: "string list \<Rightarrow> int \<Rightarrow> int \<Rightarrow> string list" where
  "list_range xs start stop =
     (let n = int (length xs);
          a = (if start < 0 then max 0 (n + start) else start);
          b = (if stop < 0 then n + stop else min stop (n - 1))
      in if a > b then [] else take (nat (b - a + 1)) (drop (nat a) xs))"

text \<open>\<^verbatim>\<open>LRANGE\<close>: \<open>None\<close> is the error reply for a key of another type.\<close>

definition redis_LRange :: "redis \<Rightarrow> int \<Rightarrow> string \<Rightarrow> int \<Rightarrow> int \<Rightarrow> string list option" where
  "redis_LRange r now k start stop =
     (case redis_lookup r now k of
        None \<Rightarrow> Some []
      | Some (RList xs, e) \<Rightarrow> Some (list_range xs start stop)
      | Some (_, e) \<Rightarrow> None)"

text \<open>\<^verbatim>\<open>LTRIM\<close> keeps the range; a list that becomes empty is removed.\<close>

definition redis_LTrim :: "redis \<Rightarrow> int \<Rightarrow> string \<Rightarrow> int \<Rightarrow> int \<Rightarrow> redis" where
  "redis_LTrim r now k start stop =
     (case redis_lookup r now k of
        None \<Rightarrow> r
      | Some (RList xs, e) \<Rightarrow>
          (let ys = list_range xs start stop
           in if ys = [] then r(k := None) else r(k \<mapsto> (RList ys, e)))
      | Some (_, e) \<Rightarrow> r)"

text \<open>
  \<^verbatim>\<open>Expire(key, expiration)\<close> of go-redis sends \<^verbatim>\<open>EXPIRE key formatSec(expiration)\<close>.
  The command has no effect on an absent key; a number of seconds that is not positive
  deletes the key.
\<close>

definition redis_Expire :: "redis \<Rightarrow> int \<Rightarrow> string \<Rightarrow> int \<Rightarrow> redis" where
  "redis_Expire r now k expiration =
     (let seconds = formatSec expiration
      in case redis_lookup r now k of
           None \<Rightarrow> r
         | Some (v, e) \<Rightarrow> if seconds \<le> 0 then r(k := None)
                          else r(k \<mapsto> (v, Some ((now + seconds) * 1000))))"

text \<open>
  \<^verbatim>\<open>Get(key).Int64()\<close> and \<^verbatim>\<open>Get(key).Float64()\<close> with the error discarded, as
  \<^verbatim>\<open>calculateChannelStats\<close> calls them: a missing or unparsable value reads as zero.
\<close>

definition redis_GetInt64 :: "redis \<Rightarrow> int \<Rightarrow> string \<Rightarrow> int" where
  "redis_GetInt64 r now k =
     (case redis_lookup r now k of Some (RInt n, e) \<Rightarrow> n | _ \<Rightarrow> 0)"

definition redis_GetFloat64 :: "redis \<Rightarrow> int \<Rightarrow> string \<Rightarrow> real" where
  "redis_GetFloat64 r now k =
     (case redis_lookup r now k of
        Some (RFloat x, e) \<Rightarrow> x
      | Some (RInt n, e) \<Rightarrow> of_int n
      | _ \<Rightarrow> 0)"

subsection \<open>Redirect descriptors and the match of one channel\<close>

text \<open>
  The state a call of the matching service changes: the Redis store and the number of
  identifiers drawn from \<^verbatim>\<open>uuid.New()\<close> so far. The generator itself is the parameter
  \<open>newUUID\<close>, and \<open>now\<close> is the clock reading of the call. The field \<open>ExpiresAt\<close> of a
  redirect descriptor is a \<^verbatim>\<open>time.Time\<close>, here in Unix nanoseconds:
  \<^verbatim>\<open>time.Now().Add(d)\<close> is the clock reading plus the duration \<open>d\<close>.
\<close>

record World =
  redis :: redis
  drawn :: nat

definition redirectKey :: "string \<Rightarrow> string" where
  "redirectKey redirectID = ''redirect:'' @ redirectID"

definition cacheRedirectInfo ::
  "Config \<Rightarrow> int \<Rightarrow> string \<Rightarrow> RedirectInfo \<Rightarrow> MatchingRequest \<Rightarrow> World \<Rightarrow> World" where
  "cacheRedirectInfo cfg now redirectID redirectInfo request w =
     (let cacheKey = redirectKey redirectID
      in w\<lparr>redis := redis_Set (redis w) now cacheKey
                       (RedirectData redirectInfo request now)
                       (secondsDuration (RedirectExpiration cfg))\<rparr>)"

definition generateRedirectInfo ::
  "Config \<Rightarrow> (nat \<Rightarrow> string) \<Rightarrow> int \<Rightarrow> Channel \<Rightarrow> MatchingRequest \<Rightarrow> World
     \<Rightarrow> RedirectInfo \<times> World" where
  "generateRedirectInfo cfg newUUID now channel request w =
     (let redirectID = newUUID (drawn w);
          w = w\<lparr>drawn := Suc (drawn w)\<rparr>;
          baseURL = Website channel;
          baseURL = (case API channel of
                       None \<Rightarrow> baseURL
                     | Some api \<Rightarrow> if HasTradingAPI api then baseURL @ ''/api/redirect''
                                   else baseURL);
          params = [(''asset_id'', PString (AssetID request)),
                    (''amount'', PFloat (Amount request)),
                    (''redirect_id'', PString redirectID),
                    (''user_id'', PString (UserID request)),
                    (''timestamp'', PInt now)];
          redirectInfo = \<lparr>URL = baseURL @ ''?redirect_id='' @ redirectID,
                          HTTPMethod = ''GET'',
                          Parameters = params,
                          ExpiresAt = now * 1000000000
                                        + secondsDuration (RedirectExpiration cfg)\<rparr>
      in (redirectInfo, cacheRedirectInfo cfg now redirectID redirectInfo request w))"

definition calculateChannelMatch ::
  "Config \<Rightarrow> (nat \<Rightarrow> string) \<Rightarrow> int \<Rightarrow> Channel \<Rightarrow> MatchingRequest \<Rightarrow> World
     \<Rightarrow> MatchingResult \<times> World" where
  "calculateChannelMatch cfg newUUID now channel request w =
     (case generateRedirectInfo cfg newUUID now channel request w of
        (redirectInfo, w') \<Rightarrow>
          (\<lparr>ChannelID = ID channel,
            Channel = channel,
            MatchScore = normalizedScore channel request,
            EstimatedFees = calculateFeeEstimate channel (Amount request),
            Availability = checkChannelAvailability channel request,
            RedirectInfo = redirectInfo,
            ProcessingTime = estimateProcessingTime channel request\<rparr>, w'))"

subsection \<open>Sorting\<close>

text \<open>
  \<^verbatim>\<open>sort.Slice\<close> belongs to Go's standard library. Its documentation promises that the
  slice is sorted by the given \<^verbatim>\<open>less\<close> and says that the sort is not guaranteed to be
  stable. The matching engine therefore takes the sort as a parameter \<open>srt\<close>, and
  \<open>sortSlice_spec\<close> is what may be assumed of it: for a comparison that is a strict weak
  order, the result is a permutation of the input in which no element is less than an
  earlier one.
\<close>

definition strict_weak :: "('a \<Rightarrow> 'a \<Rightarrow> bool) \<Rightarrow> bool" where
  "strict_weak lt \<longleftrightarrow>
     (\<forall>a b. lt a b \<longrightarrow> \<not> lt b a) \<and> (\<forall>a b c. \<not> lt a b \<and> \<not> lt b c \<longrightarrow> \<not> lt a c)"

definition sortSlice_spec :: "(('a \<Rightarrow> 'a \<Rightarrow> bool) \<Rightarrow> 'a list \<Rightarrow> 'a list) \<Rightarrow> bool" where
  "sortSlice_spec srt \<longleftrightarrow>
     (\<forall>lt xs. strict_weak lt \<longrightarrow>
        mset (srt lt xs) = mset xs \<and> sorted_wrt (\<lambda>a b. \<not> lt b a) (srt lt xs))"

text \<open>
  A sort that meets \<open>sortSlice_spec\<close> and is stable: \<open>insertionSort\<close> is the insertion
  sort of the Go library (each element moves left while it sorts before its left
  neighbour); the sorted prefix is kept reversed, so that its head is the neighbour to
  compare with.
\<close>

fun insertLeft :: "('a \<Rightarrow> 'a \<Rightarrow> bool) \<Rightarrow> 'a \<Rightarrow> 'a list \<Rightarrow> 'a list" where
  "insertLeft lt x [] = [x]"
| "insertLeft lt x (y # ys) =
     (if lt x y then y # insertLeft lt x ys else x # y # ys)"

definition insertionSort :: "('a \<Rightarrow> 'a \<Rightarrow> bool) \<Rightarrow> 'a list \<Rightarrow> 'a list" where
  "insertionSort lt xs = rev (foldl (\<lambda>prefix x. insertLeft lt x prefix) [] xs)"

text \<open>\<open>sortsTo srt lt xs\<close>: on the slice \<open>xs\<close> the sort returns a permutation sorted by \<open>lt\<close>.\<close>

definition sortsTo :: "(('a \<Rightarrow> 'a \<Rightarrow> bool) \<Rightarrow> 'a list \<Rightarrow> 'a list) \<Rightarrow> ('a \<Rightarrow> 'a \<Rightarrow> bool) \<Rightarrow> 'a list \<Rightarrow> bool" where
  "sortsTo srt lt xs \<longleftrightarrow>
     mset (srt lt xs) = mset xs \<and> sorted_wrt (\<lambda>a b. \<not> lt b a) (srt lt xs)"

subsection \<open>The algorithm of \<^verbatim>\<open>sort.Slice\<close>\<close>

text \<open>
  The pattern-defeating quicksort that \<^verbatim>\<open>sort.Slice\<close> runs since Go 1.19
  (\<^verbatim>\<open>sort/zsortfunc.go\<close>, \<^verbatim>\<open>sort/sort.go\<close> and \<^verbatim>\<open>sort/slice.go\<close> of the standard
  library), function by function. The algorithm touches the slice only through
  \<^verbatim>\<open>less(i, j)\<close> and \<^verbatim>\<open>swap(i, j)\<close>; the model therefore sorts the list \<open>p\<close> of the
  original positions of the elements: \<open>R\<close> compares two original positions, so
  \<open>dataLess R p i j\<close> compares the elements that are at \<open>i\<close> and \<open>j\<close> now. Indices are
  Go's \<^verbatim>\<open>int\<close>. The result \<open>None\<close> is an index out of range (a panic) or a loop that
  has used up its budget of steps; each loop of the source moves an index by one within
  the slice, and \<open>budget\<close> allows it the length of the slice and two more steps.
\<close>

text \<open>The two operations on the slice: \<^verbatim>\<open>data.Less(i, j)\<close> and \<^verbatim>\<open>data.Swap(i, j)\<close>.\<close>

definition dataLess :: "(nat \<Rightarrow> nat \<Rightarrow> bool) \<Rightarrow> nat list \<Rightarrow> int \<Rightarrow> int \<Rightarrow> bool option" where
  "dataLess R p i j =
     (if 0 \<le> i \<and> i < int (length p) \<and> 0 \<le> j \<and> j < int (length p)
      then Some (R (p ! nat i) (p ! nat j)) else None)"

definition dataSwap :: "nat list \<Rightarrow> int \<Rightarrow> int \<Rightarrow> nat list option" where
  "dataSwap p i j =
     (if 0 \<le> i \<and> i < int (length p) \<and> 0 \<le> j \<and> j < int (length p)
      then Some (p[nat i := p ! nat j, nat j := p ! nat i]) else None)"

definition budget :: "nat list \<Rightarrow> nat" where
  "budget p = length p + 2"

text \<open>\<^verbatim>\<open>insertionSort_func\<close> sorts \<^verbatim>\<open>data[a:b]\<close>; its inner and outer loop.\<close>

fun insertionShift ::
  "(nat \<Rightarrow> nat \<Rightarrow> bool) \<Rightarrow> nat list \<Rightarrow> int \<Rightarrow> int \<Rightarrow> nat \<Rightarrow> nat list option" where
  "insertionShift R p a j 0 = None"
| "insertionShift R p a j (Suc fuel) =
     (if j > a then do {
        lt \<leftarrow> dataLess R p j (j - 1);
        if lt then do {
          p' \<leftarrow> dataSwap p j (j - 1);
          insertionShift R p' a (j - 1) fuel }
        else Some p }
      else Some p)"

fun insertionLoop ::
  "(nat \<Rightarrow> nat \<Rightarrow> bool) \<Rightarrow> nat list \<Rightarrow> int \<Rightarrow> int \<Rightarrow> int \<Rightarrow> nat \<Rightarrow> nat list option" where
  "insertionLoop R p a i b 0 = None"
| "insertionLoop R p a i b (Suc fuel) =
     (if i < b then do {
        p' \<leftarrow> insertionShift R p a i (budget p);
        insertionLoop R p' a (i + 1) b fuel }
      else Some p)"

definition insertionSort_func ::
  "(nat \<Rightarrow> nat \<Rightarrow> bool) \<Rightarrow> nat list \<Rightarrow> int \<Rightarrow> int \<Rightarrow> nat list option" where
  "insertionSort_func R p a b = insertionLoop R p a (a + 1) b (budget p)"

text \<open>\<^verbatim>\<open>heapSort_func\<close>, the fallback when the limit of bad pivots is used up.\<close>

fun siftDown_func ::
  "(nat \<Rightarrow> nat \<Rightarrow> bool) \<Rightarrow> nat list \<Rightarrow> int \<Rightarrow> int \<Rightarrow> int \<Rightarrow> nat \<Rightarrow> nat list option" where
  "siftDown_func R p rt hi first 0 = None"
| "siftDown_func R p rt hi first (Suc fuel) =
     (let child = 2 * rt + 1 in
      if child \<ge> hi then Some p
      else do {
        child \<leftarrow> (if child + 1 < hi then do {
                     lt \<leftarrow> dataLess R p (first + child) (first + child + 1);
                     Some (if lt then child + 1 else child) }
                   else Some child);
        lt \<leftarrow> dataLess R p (first + rt) (first + child);
        if \<not> lt then Some p
        else do {
          p' \<leftarrow> dataSwap p (first + rt) (first + child);
          siftDown_func R p' child hi first fuel } })"

fun heapBuild ::
  "(nat \<Rightarrow> nat \<Rightarrow> bool) \<Rightarrow> nat list \<Rightarrow> int \<Rightarrow> int \<Rightarrow> int \<Rightarrow> nat \<Rightarrow> nat list option" where
  "heapBuild R p i hi first 0 = None"
| "heapBuild R p i hi first (Suc fuel) =
     (if i \<ge> 0 then do {
        p' \<leftarrow> siftDown_func R p i hi first (budget p);
        heapBuild R p' (i - 1) hi first fuel }
      else Some p)"

fun heapPop ::
  "(nat \<Rightarrow> nat \<Rightarrow> bool) \<Rightarrow> nat list \<Rightarrow> int \<Rightarrow> int \<Rightarrow> int \<Rightarrow> nat \<Rightarrow> nat list option" where
  "heapPop R p i lo first 0 = None"
| "heapPop R p i lo first (Suc fuel) =
     (if i \<ge> 0 then do {
        p' \<leftarrow> dataSwap p first (first + i);
        p'' \<leftarrow> siftDown_func R p' lo i first (budget p);
        heapPop R p'' (i - 1) lo first fuel }
      else Some p)"

definition heapSort_func ::
  "(nat \<Rightarrow> nat \<Rightarrow> bool) \<Rightarrow> nat list \<Rightarrow> int \<Rightarrow> int \<Rightarrow> nat list option" where
  "heapSort_func R p a b =
     (let first = a; lo = 0; hi = b - a
      in do {
        p' \<leftarrow> heapBuild R p (goDiv (hi - 1) 2) hi first (budget p);
        heapPop R p' (hi - 1) lo first (budget p) })"

text \<open>
  \<^verbatim>\<open>breakPatterns_func\<close> swaps three elements around the middle with pseudo-random ones.
  The generator is \<^verbatim>\<open>xorshift\<close>, seeded with the length, so the swaps are a function of
  the length alone. \<^verbatim>\<open>bits.Len\<close> is the number of bits of its argument.
\<close>

fun bitsLen :: "nat \<Rightarrow> nat" where
  "bitsLen n = (if n = 0 then 0 else Suc (bitsLen (n div 2)))"

declare bitsLen.simps [simp del]

definition xorshiftNext :: "64 word \<Rightarrow> 64 word" where
  "xorshiftNext r =
     (let r = r XOR push_bit 13 r;
          r = r XOR drop_bit 7 r;
          r = r XOR push_bit 17 r
      in r)"

definition nextPowerOfTwo :: "int \<Rightarrow> 64 word" where
  "nextPowerOfTwo len = push_bit (bitsLen (nat len)) 1"

fun breakSwaps ::
  "nat list \<Rightarrow> int \<Rightarrow> int \<Rightarrow> int \<Rightarrow> 64 word \<Rightarrow> 64 word \<Rightarrow> int \<Rightarrow> nat \<Rightarrow> nat list option" where
  "breakSwaps p a len idx random modulus i 0 = None"
| "breakSwaps p a len idx random modulus i (Suc fuel) =
     (if i < 3 then
        (let random = xorshiftNext random;
             other = uint (random AND (modulus - 1));
             other = (if other \<ge> len then other - len else other)
         in do {
           p' \<leftarrow> dataSwap p (idx - 1 + i) (a + other);
           breakSwaps p' a len idx random modulus (i + 1) fuel })
      else Some p)"

definition breakPatterns_func :: "nat list \<Rightarrow> int \<Rightarrow> int \<Rightarrow> nat list option" where
  "breakPatterns_func p a b =
     (let len = b - a
      in if len \<ge> 8 then
           (let random = word_of_int len;
                modulus = nextPowerOfTwo len;
                idx = a + (len div 4) * 2 - 1
            in breakSwaps p a len idx random modulus 0 4)
         else Some p)"

text \<open>\<^verbatim>\<open>choosePivot_func\<close>: a median of three, or of three medians from length 50.\<close>

datatype sortedHint = unknownHint | increasingHint | decreasingHint

definition order2_func ::
  "(nat \<Rightarrow> nat \<Rightarrow> bool) \<Rightarrow> nat list \<Rightarrow> int \<Rightarrow> int \<Rightarrow> int \<Rightarrow> (int \<times> int \<times> int) option" where
  "order2_func R p a b swaps = do {
     lt \<leftarrow> dataLess R p b a;
     Some (if lt then (b, a, swaps + 1) else (a, b, swaps)) }"

definition median_func ::
  "(nat \<Rightarrow> nat \<Rightarrow> bool) \<Rightarrow> nat list \<Rightarrow> int \<Rightarrow> int \<Rightarrow> int \<Rightarrow> int \<Rightarrow> (int \<times> int) option" where
  "median_func R p a b c swaps = do {
     (a, b, swaps) \<leftarrow> order2_func R p a b swaps;
     (b, c, swaps) \<leftarrow> order2_func R p b c swaps;
     (a, b, swaps) \<leftarrow> order2_func R p a b swaps;
     Some (b, swaps) }"

definition medianAdjacent_func ::
  "(nat \<Rightarrow> nat \<Rightarrow> bool) \<Rightarrow> nat list \<Rightarrow> int \<Rightarrow> int \<Rightarrow> (int \<times> int) option" where
  "medianAdjacent_func R p a swaps = median_func R p (a - 1) a (a + 1) swaps"

definition choosePivot_func ::
  "(nat \<Rightarrow> nat \<Rightarrow> bool) \<Rightarrow> nat list \<Rightarrow> int \<Rightarrow> int \<Rightarrow> (int \<times> sortedHint) option" where
  "choosePivot_func R p a b =
     (let l = b - a;
          swaps = 0;
          i = a + l div 4 * 1;
          j = a + l div 4 * 2;
          k = a + l div 4 * 3
      in do {
        (j, swaps) \<leftarrow>
          (if l \<ge> 8 then do {
             (i, j, k, swaps) \<leftarrow>
               (if l \<ge> 50 then do {
                  (i, swaps) \<leftarrow> medianAdjacent_func R p i swaps;
                  (j, swaps) \<leftarrow> medianAdjacent_func R p j swaps;
                  (k, swaps) \<leftarrow> medianAdjacent_func R p k swaps;
                  Some (i, j, k, swaps) }
                else Some (i, j, k, swaps));
             median_func R p i j k swaps }
           else Some (j, swaps));
        Some (j, if swaps = 0 then increasingHint
                 else if swaps = 4 * 3 then decreasingHint
                 else unknownHint) })"

fun reverseRange_loop :: "nat list \<Rightarrow> int \<Rightarrow> int \<Rightarrow> nat \<Rightarrow> nat list option" where
  "reverseRange_loop p i j 0 = None"
| "reverseRange_loop p i j (Suc fuel) =
     (if i < j then do {
        p' \<leftarrow> dataSwap p i j;
        reverseRange_loop p' (i + 1) (j - 1) fuel }
      else Some p)"

definition reverseRange_func :: "nat list \<Rightarrow> int \<Rightarrow> int \<Rightarrow> nat list option" where
  "reverseRange_func p a b = reverseRange_loop p a (b - 1) (budget p)"

text \<open>
  \<^verbatim>\<open>partialInsertionSort_func\<close> reports whether the slice is sorted after at most five
  repairs; on a slice shorter than 50 it repairs nothing.
\<close>

fun scanSorted ::
  "(nat \<Rightarrow> nat \<Rightarrow> bool) \<Rightarrow> nat list \<Rightarrow> int \<Rightarrow> int \<Rightarrow> nat \<Rightarrow> int option" where
  "scanSorted R p i b 0 = None"
| "scanSorted R p i b (Suc fuel) =
     (if i < b then do {
        lt \<leftarrow> dataLess R p i (i - 1);
        if \<not> lt then scanSorted R p (i + 1) b fuel else Some i }
      else Some i)"

fun shiftLeft ::
  "(nat \<Rightarrow> nat \<Rightarrow> bool) \<Rightarrow> nat list \<Rightarrow> int \<Rightarrow> nat \<Rightarrow> nat list option" where
  "shiftLeft R p j 0 = None"
| "shiftLeft R p j (Suc fuel) =
     (if j \<ge> 1 then do {
        lt \<leftarrow> dataLess R p j (j - 1);
        if \<not> lt then Some p
        else do {
          p' \<leftarrow> dataSwap p j (j - 1);
          shiftLeft R p' (j - 1) fuel } }
      else Some p)"

fun shiftRight ::
  "(nat \<Rightarrow> nat \<Rightarrow> bool) \<Rightarrow> nat list \<Rightarrow> int \<Rightarrow> int \<Rightarrow> nat \<Rightarrow> nat list option" where
  "shiftRight R p j b 0 = None"
| "shiftRight R p j b (Suc fuel) =
     (if j < b then do {
        lt \<leftarrow> dataLess R p j (j - 1);
        if \<not> lt then Some p
        else do {
          p' \<leftarrow> dataSwap p j (j - 1);
          shiftRight R p' (j + 1) b fuel } }
      else Some p)"

fun partialInsertionLoop ::
  "(nat \<Rightarrow> nat \<Rightarrow> bool) \<Rightarrow> nat list \<Rightarrow> int \<Rightarrow> int \<Rightarrow> int \<Rightarrow> int \<Rightarrow> nat
     \<Rightarrow> (nat list \<times> bool) option" where
  "partialInsertionLoop R p a b i j 0 = None"
| "partialInsertionLoop R p a b i j (Suc fuel) =
     (if j < 5 then do {
        i \<leftarrow> scanSorted R p i b (budget p);
        if i = b then Some (p, True)
        else if b - a < 50 then Some (p, False)
        else do {
          p \<leftarrow> dataSwap p i (i - 1);
          p \<leftarrow> (if i - a \<ge> 2 then shiftLeft R p (i - 1) (budget p) else Some p);
          p \<leftarrow> (if b - i \<ge> 2 then shiftRight R p (i + 1) b (budget p) else Some p);
          partialInsertionLoop R p a b i (j + 1) fuel } }
      else Some (p, False))"

definition partialInsertionSort_func ::
  "(nat \<Rightarrow> nat \<Rightarrow> bool) \<Rightarrow> nat list \<Rightarrow> int \<Rightarrow> int \<Rightarrow> (nat list \<times> bool) option" where
  "partialInsertionSort_func R p a b = partialInsertionLoop R p a b (a + 1) 0 6"

text \<open>
  \<^verbatim>\<open>partition_func\<close> moves the pivot to \<^verbatim>\<open>data[a]\<close>, the elements that sort before it
  to its left and the others to its right, and returns the pivot's position and whether
  the slice was partitioned already.
\<close>

fun scanUp ::
  "(nat \<Rightarrow> nat \<Rightarrow> bool) \<Rightarrow> nat list \<Rightarrow> int \<Rightarrow> int \<Rightarrow> int \<Rightarrow> nat \<Rightarrow> int option" where
  "scanUp R p a i j 0 = None"
| "scanUp R p a i j (Suc fuel) =
     (if i \<le> j then do {
        lt \<leftarrow> dataLess R p i a;
        if lt then scanUp R p a (i + 1) j fuel else Some i }
      else Some i)"

fun scanDown ::
  "(nat \<Rightarrow> nat \<Rightarrow> bool) \<Rightarrow> nat list \<Rightarrow> int \<Rightarrow> int \<Rightarrow> int \<Rightarrow> nat \<Rightarrow> int option" where
  "scanDown R p a i j 0 = None"
| "scanDown R p a i j (Suc fuel) =
     (if i \<le> j then do {
        lt \<leftarrow> dataLess R p j a;
        if \<not> lt then scanDown R p a i (j - 1) fuel else Some j }
      else Some j)"

fun partitionLoop ::
  "(nat \<Rightarrow> nat \<Rightarrow> bool) \<Rightarrow> nat list \<Rightarrow> int \<Rightarrow> int \<Rightarrow> int \<Rightarrow> nat
     \<Rightarrow> (nat list \<times> int) option" where
  "partitionLoop R p a i j 0 = None"
| "partitionLoop R p a i j (Suc fuel) = do {
     i \<leftarrow> scanUp R p a i j (budget p);
     j \<leftarrow> scanDown R p a i j (budget p);
     if i > j then Some (p, j)
     else do {
       p' \<leftarrow> dataSwap p i j;
       partitionLoop R p' a (i + 1) (j - 1) fuel } }"

definition partition_func ::
  "(nat \<Rightarrow> nat \<Rightarrow> bool) \<Rightarrow> nat list \<Rightarrow> int \<Rightarrow> int \<Rightarrow> int \<Rightarrow> (nat list \<times> int \<times> bool) option" where
  "partition_func R p a b pivot = do {
     p \<leftarrow> dataSwap p a pivot;
     i \<leftarrow> scanUp R p a (a + 1) (b - 1) (budget p);
     j \<leftarrow> scanDown R p a i (b - 1) (budget p);
     if i > j then do {
       p \<leftarrow> dataSwap p j a;
       Some (p, j, True) }
     else do {
       p \<leftarrow> dataSwap p i j;
       (p, j) \<leftarrow> partitionLoop R p a (i + 1) (j - 1) (budget p);
       p \<leftarrow> dataSwap p j a;
       Some (p, j, False) } }"

text \<open>\<^verbatim>\<open>partitionEqual_func\<close> skips the elements that are equal to the pivot.\<close>

fun scanUpEqual ::
  "(nat \<Rightarrow> nat \<Rightarrow> bool) \<Rightarrow> nat list \<Rightarrow> int \<Rightarrow> int \<Rightarrow> int \<Rightarrow> nat \<Rightarrow> int option" where
  "scanUpEqual R p a i j 0 = None"
| "scanUpEqual R p a i j (Suc fuel) =
     (if i \<le> j then do {
        lt \<leftarrow> dataLess R p a i;
        if \<not> lt then scanUpEqual R p a (i + 1) j fuel else Some i }
      else Some i)"

fun scanDownEqual ::
  "(nat \<Rightarrow> nat \<Rightarrow> bool) \<Rightarrow> nat list \<Rightarrow> int \<Rightarrow> int \<Rightarrow> int \<Rightarrow> nat \<Rightarrow> int option" where
  "scanDownEqual R p a i j 0 = None"
| "scanDownEqual R p a i j (Suc fuel) =
     (if i \<le> j then do {
        lt \<leftarrow> dataLess R p a j;
        if lt then scanDownEqual R p a i (j - 1) fuel else Some j }
      else Some j)"

fun partitionEqualLoop ::
  "(nat \<Rightarrow> nat \<Rightarrow> bool) \<Rightarrow> nat list \<Rightarrow> int \<Rightarrow> int \<Rightarrow> int \<Rightarrow> nat
     \<Rightarrow> (nat list \<times> int) option" where
  "partitionEqualLoop R p a i j 0 = None"
| "partitionEqualLoop R p a i j (Suc fuel) = do {
     i \<leftarrow> scanUpEqual R p a i j (budget p);
     j \<leftarrow> scanDownEqual R p a i j (budget p);
     if i > j then Some (p, i)
     else do {
       p' \<leftarrow> dataSwap p i j;
       partitionEqualLoop R p' a (i + 1) (j - 1) fuel } }"

definition partitionEqual_func ::
  "(nat \<Rightarrow> nat \<Rightarrow> bool) \<Rightarrow> nat list \<Rightarrow> int \<Rightarrow> int \<Rightarrow> int \<Rightarrow> (nat list \<times> int) option" where
  "partitionEqual_func R p a b pivot = do {
     p \<leftarrow> dataSwap p a pivot;
     partitionEqualLoop R p a (a + 1) (b - 1) (budget p) }"

text \<open>
  \<^verbatim>\<open>pdqsort_func\<close>. The two flags are local variables of the source, set to true on
  entry; the loop of the source continues on one side of the pivot after the recursive
  call on the other, which is a second call here, with the flags as the loop has them.
\<close>

fun pdqsort_func ::
  "(nat \<Rightarrow> nat \<Rightarrow> bool) \<Rightarrow> nat list \<Rightarrow> int \<Rightarrow> int \<Rightarrow> int \<Rightarrow> bool \<Rightarrow> bool \<Rightarrow> nat
     \<Rightarrow> nat list option" where
  "pdqsort_func R p a b limit wasBalanced wasPartitioned 0 = None"
| "pdqsort_func R p a b limit wasBalanced wasPartitioned (Suc fuel) =
     (let len = b - a
      in if len \<le> 12 then insertionSort_func R p a b
         else if limit = 0 then heapSort_func R p a b
         else do {
           (p, limit) \<leftarrow>
             (if \<not> wasBalanced then do {
                p' \<leftarrow> breakPatterns_func p a b;
                Some (p', limit - 1) }
              else Some (p, limit));
           (pivot, hint) \<leftarrow> choosePivot_func R p a b;
           (p, pivot, hint) \<leftarrow>
             (if hint = decreasingHint then do {
                p' \<leftarrow> reverseRange_func p a b;
                Some (p', (b - 1) - (pivot - a), increasingHint) }
              else Some (p, pivot, hint));
           (p, sorted) \<leftarrow>
             (if wasBalanced \<and> wasPartitioned \<and> hint = increasingHint
              then partialInsertionSort_func R p a b
              else Some (p, False));
           if sorted then Some p
           else do {
             duplicates \<leftarrow>
               (if a > 0 then do {
                  lt \<leftarrow> dataLess R p (a - 1) pivot;
                  Some (\<not> lt) }
                else Some False);
             if duplicates then do {
               (p, mid) \<leftarrow> partitionEqual_func R p a b pivot;
               pdqsort_func R p mid b limit wasBalanced wasPartitioned fuel }
             else do {
               (p, mid, alreadyPartitioned) \<leftarrow> partition_func R p a b pivot;
               (let leftLen = mid - a; rightLen = b - mid; balanceThreshold = len div 8
                in if leftLen < rightLen then do {
                     p \<leftarrow> pdqsort_func R p a mid limit True True fuel;
                     pdqsort_func R p (mid + 1) b limit (leftLen \<ge> balanceThreshold)
                       alreadyPartitioned fuel }
                   else do {
                     p \<leftarrow> pdqsort_func R p (mid + 1) b limit True True fuel;
                     pdqsort_func R p a mid limit (rightLen \<ge> balanceThreshold)
                       alreadyPartitioned fuel }) } } })"

text \<open>
  \<^verbatim>\<open>sort.Slice(x, less)\<close> starts \<^verbatim>\<open>pdqsort_func\<close> on the whole slice with the limit
  \<^verbatim>\<open>bits.Len(length)\<close>. \<open>pdqsortPermutation\<close> is the permutation of the positions that the
  run computes, and \<open>sort_Slice\<close> applies it to the slice. Where the run has no result in
  the model (\<open>None\<close>), \<open>sort_Slice\<close> returns the slice as it is; the runs that the
  theorems below evaluate all have a result.
\<close>

definition pdqsortPermutation :: "(nat \<Rightarrow> nat \<Rightarrow> bool) \<Rightarrow> nat \<Rightarrow> nat list option" where
  "pdqsortPermutation R n = do {
     p \<leftarrow> pdqsort_func R [0..<n] 0 (int n) (int (bitsLen n)) True True (n + 2);
     if list_all (\<lambda>i. i < n) p then Some p else None }"

definition sort_Slice :: "('a \<Rightarrow> 'a \<Rightarrow> bool) \<Rightarrow> 'a list \<Rightarrow> 'a list" where
  "sort_Slice lt x =
     (case pdqsortPermutation (\<lambda>i j. i < length x \<and> j < length x \<and> lt (x ! i) (x ! j)) (length x) of
        Some p \<Rightarrow> map (nth x) p
      | None \<Rightarrow> x)"

text \<open>
  \<open>scorePermutation\<close> is the permutation \<open>sort_Slice\<close> applies for a comparison by
  descending score, as a function of the scores alone.
\<close>

definition scorePermutation :: "real list \<Rightarrow> nat list" where
  "scorePermutation scores =
     (case pdqsortPermutation
             (\<lambda>i j. i < length scores \<and> j < length scores \<and> scores ! i > scores ! j)
             (length scores) of
        Some p \<Rightarrow> p
      | None \<Rightarrow> [0..<length scores])"

subsection \<open>The matching engine\<close>

datatype error =
    FetchError string
  | NoEligibleChannels string string
  | SliceBoundsPanic

text \<open>
  The scoring loop of \<^verbatim>\<open>MatchChannels\<close>: every channel is scored (which writes its
  redirect token), and the result is appended when its score reaches the minimum.
\<close>

fun scoreChannels ::
  "Config \<Rightarrow> (nat \<Rightarrow> string) \<Rightarrow> int \<Rightarrow> Channel list \<Rightarrow> MatchingRequest
     \<Rightarrow> MatchingResult list \<Rightarrow> World \<Rightarrow> MatchingResult list \<times> World" where
  "scoreChannels cfg newUUID now [] request results w = (results, w)"
| "scoreChannels cfg newUUID now (channel # channels) request results w =
     (case calculateChannelMatch cfg newUUID now channel request w of
        (result, w') \<Rightarrow>
          scoreChannels cfg newUUID now channels request
            (if MatchScore result \<ge> MinMatchingScore cfg then results @ [result] else results)
            w')"

text \<open>
  \<open>fetched\<close> is the outcome of \<^verbatim>\<open>getEligibleChannels\<close> (the cache and database
  lookup): an error message or the eligible channels in fetch order. A slice expression
  \<^verbatim>\<open>results[:n]\<close> with a negative \<^verbatim>\<open>n\<close> panics.
\<close>

definition MatchChannels ::
  "((MatchingResult \<Rightarrow> MatchingResult \<Rightarrow> bool) \<Rightarrow> MatchingResult list \<Rightarrow> MatchingResult list)
     \<Rightarrow> Config \<Rightarrow> (nat \<Rightarrow> string) \<Rightarrow> int \<Rightarrow> string + Channel list \<Rightarrow> MatchingRequest
     \<Rightarrow> World \<Rightarrow> (error + MatchingResult list) \<times> World" where
  "MatchChannels srt cfg newUUID now fetched request w =
     (case fetched of
        Inl err \<Rightarrow> (Inl (FetchError err), w)
      | Inr channels \<Rightarrow>
          if length channels = 0
          then (Inl (NoEligibleChannels (AssetID request) (UserRegion request)), w)
          else
            (case scoreChannels cfg newUUID now channels request [] w of
               (results, w') \<Rightarrow>
                 (let results = srt (\<lambda>a b. MatchScore a > MatchScore b) results
                  in if int (length results) > MaxMatchingResults cfg
                     then (if MaxMatchingResults cfg < 0 then (Inl SliceBoundsPanic, w')
                           else (Inr (take (nat (MaxMatchingResults cfg)) results), w'))
                     else (Inr results, w'))))"

text \<open>
  The candidates of one call, in fetch order: the result that \<^verbatim>\<open>calculateChannelMatch\<close>
  builds for each channel when \<open>n\<close> identifiers have been drawn before it. (The result
  does not depend on the store.)
\<close>

definition matchOf ::
  "Config \<Rightarrow> (nat \<Rightarrow> string) \<Rightarrow> int \<Rightarrow> MatchingRequest \<Rightarrow> nat \<Rightarrow> Channel \<Rightarrow> MatchingResult" where
  "matchOf cfg newUUID now request n channel =
     fst (calculateChannelMatch cfg newUUID now channel request \<lparr>redis = Map.empty, drawn = n\<rparr>)"

fun candidates ::
  "Config \<Rightarrow> (nat \<Rightarrow> string) \<Rightarrow> int \<Rightarrow> MatchingRequest \<Rightarrow> nat \<Rightarrow> Channel list
     \<Rightarrow> MatchingResult list" where
  "candidates cfg newUUID now request n [] = []"
| "candidates cfg newUUID now request n (channel # channels) =
     matchOf cfg newUUID now request n channel
       # candidates cfg newUUID now request (Suc n) channels"

text \<open>The state after every channel of the list has been scored, in order.\<close>

fun issueTokens ::
  "Config \<Rightarrow> (nat \<Rightarrow> string) \<Rightarrow> int \<Rightarrow> MatchingRequest \<Rightarrow> Channel list \<Rightarrow> World \<Rightarrow> World" where
  "issueTokens cfg newUUID now request [] w = w"
| "issueTokens cfg newUUID now request (channel # channels) w =
     issueTokens cfg newUUID now request channels
       (snd (calculateChannelMatch cfg newUUID now channel request w))"

text \<open>The token of a redirect descriptor: its \<^verbatim>\<open>redirect_id\<close> parameter.\<close>

definition tokenOf :: "RedirectInfo \<Rightarrow> string option" where
  "tokenOf info =
     (case map_of (Parameters info) ''redirect_id'' of
        Some (PString t) \<Rightarrow> Some t
      | _ \<Rightarrow> None)"

subsection \<open>The fee sub-score as the specification words it\<close>

text \<open>
  Total estimated fee = amount times taker-fee-rate plus flat withdrawal fee, linearly
  mapped to the unit interval between a floor (amount times 0.0001) and a ceiling (amount
  times 0.01): at or below the floor 1, at or above the ceiling 0, linear interpolation
  between. As a function, the cases are taken in the order of the sentence; the sentence
  itself does not say which case applies where the total fee is both at or below the floor
  and at or above the ceiling (an amount that is not positive).
\<close>

definition feeSubScore_spec :: "real \<Rightarrow> real \<Rightarrow> real \<Rightarrow> real" where
  "feeSubScore_spec amount takerRate withdrawalFee =
     (let total = amount * takerRate + withdrawalFee;
          floor = amount * 0.0001;
          ceiling = amount * 0.01
      in if total \<le> floor then 1
         else if total \<ge> ceiling then 0
         else 1 - (total - floor) / (ceiling - floor))"

definition totalFee :: "Channel \<Rightarrow> real \<Rightarrow> real" where
  "totalFee channel amount =
     amount * Taker (Trading (Fees channel)) + Crypto (Withdrawal (Fees channel))"

subsection \<open>The attribution service\<close>

record AttributionEvent =
  EvUserID :: string
  EventType :: string
  EvChannelID :: string
  Timestamp :: int

record AttributionStats =
  StatsChannelID :: string
  TotalClicks :: int
  TotalConversions :: int
  ConversionRate :: real
  TotalRevenue :: real
  AverageOrderValue :: real
  Period :: string

text \<open>The verb \<^verbatim>\<open>%d\<close> of \<^verbatim>\<open>fmt.Sprintf\<close>: decimal digits, with a sign when negative.\<close>

definition digit :: "nat \<Rightarrow> char" where
  "digit d = ''0123456789'' ! d"

function showNat :: "nat \<Rightarrow> string" where
  "showNat n = (if n < 10 then [digit n] else showNat (n div 10) @ [digit (n mod 10)])"
  by pat_completeness auto
termination
  by (relation "measure id") auto

declare showNat.simps [simp del]

definition showInt :: "int \<Rightarrow> string" where
  "showInt i = (if i < 0 then CHR ''-'' # showNat (nat (- i)) else showNat (nat i))"

definition touchpointOf :: "AttributionEvent \<Rightarrow> string" where
  "touchpointOf event =
     EvChannelID event @ '':'' @ EventType event @ '':'' @ showInt (Timestamp event)"

definition attributionPathKey :: "string \<Rightarrow> string" where
  "attributionPathKey userID = ''attribution_path:'' @ userID"

definition updateUserAttributionPath ::
  "Config \<Rightarrow> int \<Rightarrow> AttributionEvent \<Rightarrow> redis \<Rightarrow> redis" where
  "updateUserAttributionPath cfg now event r =
     (let pathKey = attributionPathKey (EvUserID event);
          path = (case redis_LRange r now pathKey 0 (- 1) of None \<Rightarrow> [] | Some p \<Rightarrow> p);
          touchpoint = touchpointOf event;
          r = redis_LPush r now pathKey touchpoint;
          r = redis_LTrim r now pathKey 0 9;
          r = redis_Expire r now pathKey (secondsDuration (AttributionWindow cfg))
      in r)"

definition getUserAttributionPath :: "redis \<Rightarrow> int \<Rightarrow> string \<Rightarrow> string list" where
  "getUserAttributionPath r now userID =
     (let pathKey = attributionPathKey userID
      in case redis_LRange r now pathKey 0 (- 1) of None \<Rightarrow> [] | Some path \<Rightarrow> path)"

text \<open>
  A run of tracking calls, each with the clock reading at which it happens, and the
  condition that every call after the first comes before the path written by the previous
  one expires.
\<close>

fun trackAll :: "Config \<Rightarrow> (int \<times> AttributionEvent) list \<Rightarrow> redis \<Rightarrow> redis" where
  "trackAll cfg [] r = r"
| "trackAll cfg ((now, event) # calls) r =
     trackAll cfg calls (updateUserAttributionPath cfg now event r)"

fun withinWindow :: "Config \<Rightarrow> int \<Rightarrow> (int \<times> AttributionEvent) list \<Rightarrow> bool" where
  "withinWindow cfg previous [] = True"
| "withinWindow cfg previous ((now, event) # calls) =
     (now < previous + AttributionWindow cfg \<and> withinWindow cfg now calls)"

definition calculateChannelStats :: "redis \<Rightarrow> int \<Rightarrow> string \<Rightarrow> string \<Rightarrow> AttributionStats" where
  "calculateChannelStats r now today channelID =
     (let clickKey = ''clicks:'' @ channelID @ '':'' @ today;
          clicks = redis_GetInt64 r now clickKey;
          conversionKey = ''conversions:'' @ channelID @ '':'' @ today;
          conversions = redis_GetInt64 r now conversionKey;
          revenueKey = ''revenue:'' @ channelID @ '':'' @ today;
          revenue = redis_GetFloat64 r now revenueKey;
          conversionRate = (if clicks > 0 then of_int conversions / of_int clicks * 100 else 0);
          averageOrderValue = (if conversions > 0 then revenue / of_int conversions else 0)
      in \<lparr>StatsChannelID = channelID,
          TotalClicks = clicks,
          TotalConversions = conversions,
          ConversionRate = conversionRate,
          TotalRevenue = revenue,
          AverageOrderValue = averageOrderValue,
          Period = today\<rparr>)"

subsection \<open>Concrete inputs\<close>

text \<open>
  A channel with every bonus (trading API, chat, phone, instant response, insured,
  segregated custody, audited, an exchange, no KYC requirement, card payments), and
  variations of it.
\<close>

definition exampleChannel :: "string \<Rightarrow> real \<Rightarrow> real \<Rightarrow> Channel" where
  "exampleChannel name taker withdrawal =
     \<lparr>ID = name, Type = ''exchange'', Website = ''https://venue.example'',
      Compliance = \<lparr>KYCRequired = False, MinimumNetWorth = 0\<rparr>,
      Fees = \<lparr>Trading = \<lparr>Maker = 0, Taker = taker, Flat = 0\<rparr>,
              Withdrawal = \<lparr>Crypto = withdrawal, Fiat = 0, Wire = 0\<rparr>\<rparr>,
      PaymentMethods = [\<lparr>Method = ''card''\<rparr>],
      Support = \<lparr>Phone = ''+1-555-0100'', Chat = True, ResponseTime = ''instant''\<rparr>,
      API = Some \<lparr>HasReadOnlyAPI = True, HasTradingAPI = True\<rparr>,
      Security = \<lparr>Insurance = Some \<lparr>Coverage = 1000000, Provider = ''insurer''\<rparr>,
                  Custody = \<lparr>Segregation = True\<rparr>,
                  Audits = [\<lparr>Auditor = ''auditor'', Scope = ''full''\<rparr>]\<rparr>\<rparr>"

definition channel075 :: Channel where
  "channel075 = exampleChannel ''A'' 0.008 0.2"

definition channel055 :: Channel where
  "channel055 = (exampleChannel ''B'' 0.02 0)
     \<lparr>Type := ''bank'', Support := \<lparr>Phone = [], Chat = True, ResponseTime = ''instant''\<rparr>,
      API := None\<rparr>"

definition channel090 :: Channel where
  "channel090 = exampleChannel ''C'' 0.003 0.7"

definition channelKYC :: Channel where
  "channelKYC = (exampleChannel ''K'' 0 0)
     \<lparr>Compliance := \<lparr>KYCRequired = True, MinimumNetWorth = 0\<rparr>\<rparr>"

definition exampleRequest :: MatchingRequest where
  "exampleRequest =
     \<lparr>AssetID = ''asset-1'', Amount = 10000, UserRegion = ''EU'', KYCLevel = ''basic'',
      PaymentMethod = ''card'', UserID = ''user-1''\<rparr>"

definition requestNoKYC :: MatchingRequest where
  "requestNoKYC = exampleRequest\<lparr>KYCLevel := []\<rparr>"

definition exampleUUID :: "nat \<Rightarrow> string" where
  "exampleUUID n = ''token-'' @ showNat n"

text \<open>
  Thirteen channels: twelve that score 0.75 on the example request, then one that
  scores 0.90, fetched last.
\<close>

definition tiedChannel :: "string \<Rightarrow> Channel" where
  "tiedChannel name = exampleChannel name 0.008 0.2"

definition tiedChannels :: "Channel list" where
  "tiedChannels = map tiedChannel
     [''T00'', ''T01'', ''T02'', ''T03'', ''T04'', ''T05'',
      ''T06'', ''T07'', ''T08'', ''T09'', ''T10'', ''T11'']"

definition thirteenChannels :: "Channel list" where
  "thirteenChannels = tiedChannels @ [channel090]"

definition emptyWorld :: World where
  "emptyWorld = \<lparr>redis = Map.empty, drawn = 0\<rparr>"

definition exampleEvent :: "int \<Rightarrow> AttributionEvent" where
  "exampleEvent t =
     \<lparr>EvUserID = ''user-1'', EventType = ''click'', EvChannelID = ''A'', Timestamp = t\<rparr>"

text \<open>Fifteen clicks of one user, one second apart, each tracked at its own timestamp.\<close>

definition exampleCalls :: "(int \<times> AttributionEvent) list" where
  "exampleCalls = map (\<lambda>t. (t, exampleEvent t))
     [1700000000, 1700000001, 1700000002, 1700000003, 1700000004,
      1700000005, 1700000006, 1700000007, 1700000008, 1700000009,
      1700000010, 1700000011, 1700000012, 1700000013, 1700000014]"

definition exampleCounters :: redis where
  "exampleCounters =
     [''clicks:A:2024-01-01'' \<mapsto> (RInt 4, None),
      ''conversions:A:2024-01-01'' \<mapsto> (RInt 1, None),
      ''revenue:A:2024-01-01'' \<mapsto> (RFloat 50, None)]"

section \<open>Properties of the sub-scores\<close>

lemma calculateFeeScore_cases:
  "calculateFeeScore channel amount =
     (if totalFee channel amount \<le> amount * 0.0001 then 1
      else if totalFee channel amount \<ge> amount * 0.01 then 0
      else 1 - (totalFee channel amount - amount * 0.0001) / (amount * 0.01 - amount * 0.0001))"
  by (simp add: calculateFeeScore_def totalFee_def Let_def)

lemma calculateFeeScore_range:
  "0 \<le> calculateFeeScore channel amount \<and> calculateFeeScore channel amount \<le> 1"
proof -
  let ?t = "totalFee channel amount"
  let ?lo = "amount * 0.0001" and ?hi = "amount * 0.01"
  show ?thesis
  proof (cases "?t \<le> ?lo \<or> ?t \<ge> ?hi")
    case True
    then show ?thesis by (auto simp: calculateFeeScore_cases)
  next
    case False
    then have between: "?lo < ?t" "?t < ?hi" by auto
    then have "0 < ?hi - ?lo" by linarith
    moreover have "0 \<le> ?t - ?lo" "?t - ?lo \<le> ?hi - ?lo" using between by auto
    ultimately have "0 \<le> (?t - ?lo) / (?hi - ?lo)" "(?t - ?lo) / (?hi - ?lo) \<le> 1"
      by (auto simp: divide_le_eq_1)
    then show ?thesis using False by (simp add: calculateFeeScore_cases)
  qed
qed

lemma calculateFeeScore_checked_eq:
  "calculateFeeScore_checked channel amount = Some (calculateFeeScore channel amount)"
  by (auto simp: calculateFeeScore_checked_def calculateFeeScore_def Let_def fdiv_def)

lemma supportedPayment_iff:
  "supportedPayment methods requested \<longleftrightarrow> requested \<in> Method ` set methods"
  by (induction methods) auto

lemma calculateAvailabilityScore_range:
  "0 \<le> calculateAvailabilityScore channel request \<and> calculateAvailabilityScore channel request \<le> 1"
  by (auto simp: calculateAvailabilityScore_def Let_def)

lemma calculateUXScore_range:
  "0 \<le> calculateUXScore channel request \<and> calculateUXScore channel request \<le> 1"
  by (auto simp: calculateUXScore_def Let_def split: option.splits)

lemma calculateSecurityScore_range:
  "0 \<le> calculateSecurityScore channel \<and> calculateSecurityScore channel \<le> 1"
  by (auto simp: calculateSecurityScore_def Let_def split: option.splits)

lemma calculateLiquidityScore_range:
  "0 \<le> calculateLiquidityScore channel a m \<and> calculateLiquidityScore channel a m \<le> 1"
  by (auto simp: calculateLiquidityScore_def)

lemma weightedScores_eq:
  "weightedScores channel request =
     (calculateFeeScore channel (Amount request) * 0.3
        + calculateAvailabilityScore channel request * 0.25
        + calculateUXScore channel request * 0.2
        + calculateSecurityScore channel * 0.15
        + calculateLiquidityScore channel (AssetID request) (Amount request) * 0.1,
      0.3 + 0.25 + 0.2 + 0.15 + 0.1)"
  by (simp add: weightedScores_def Let_def)

lemma normalizedScore_range:
  "0 \<le> normalizedScore channel request \<and> normalizedScore channel request \<le> 1"
  using calculateFeeScore_range[of channel "Amount request"]
    calculateAvailabilityScore_range[of channel request]
    calculateUXScore_range[of channel request]
    calculateSecurityScore_range[of channel]
    calculateLiquidityScore_range[of channel "AssetID request" "Amount request"]
  by (simp add: normalizedScore_def weightedScores_eq)

lemma exampleChannel_feeScore:
  "calculateFeeScore (exampleChannel name taker withdrawal) amount =
     feeSubScore_spec amount taker withdrawal"
  by (simp add: calculateFeeScore_def feeSubScore_spec_def exampleChannel_def Let_def)

text \<open>
  Claim C4, as amended. The fee sub-score equals the reference definition of the
  specification, with its cases taken in order: with total fee = amount times taker fee
  rate plus the flat crypto withdrawal fee, floor = amount times 0.0001 and ceiling =
  amount times 0.01, the sub-score is 1 when the total fee is at most the floor; it is 0
  when the total fee is above the floor and at least the ceiling; it is
  1 - (total - floor) / (ceiling - floor) strictly between; it is strictly decreasing in
  the total fee from the floor to the ceiling; and amount 10000, taker 0.005, withdrawal 5
  give 1 - 54/99. For a positive amount the floor is below the ceiling, and the sub-score
  is 0 whenever the total fee is at least the ceiling.
\<close>

theorem calculateFeeScore_reference:
  "calculateFeeScore channel amount =
     feeSubScore_spec amount (Taker (Trading (Fees channel))) (Crypto (Withdrawal (Fees channel)))
   \<and> (totalFee channel amount \<le> amount * 0.0001 \<longrightarrow> calculateFeeScore channel amount = 1)
   \<and> (amount * 0.0001 < totalFee channel amount \<and> totalFee channel amount \<ge> amount * 0.01
        \<longrightarrow> calculateFeeScore channel amount = 0)
   \<and> (0 < amount \<and> totalFee channel amount \<ge> amount * 0.01
        \<longrightarrow> calculateFeeScore channel amount = 0)
   \<and> (amount * 0.0001 < totalFee channel amount \<and> totalFee channel amount < amount * 0.01
        \<longrightarrow> calculateFeeScore channel amount =
             1 - (totalFee channel amount - amount * 0.0001) / (amount * 0.01 - amount * 0.0001))
   \<and> (amount * 0.0001 \<le> totalFee channel amount \<and> totalFee channel amount < totalFee channel' amount
        \<and> totalFee channel' amount \<le> amount * 0.01
        \<longrightarrow> calculateFeeScore channel' amount < calculateFeeScore channel amount)
   \<and> (amount = 10000 \<and> Taker (Trading (Fees channel)) = 0.005
        \<and> Crypto (Withdrawal (Fees channel)) = 5
        \<longrightarrow> totalFee channel amount = 55 \<and> calculateFeeScore channel amount = 1 - 54 / 99)"
proof -
  let ?t = "totalFee channel amount" and ?t' = "totalFee channel' amount"
  let ?lo = "amount * 0.0001" and ?hi = "amount * 0.01"
  have refine: "calculateFeeScore channel amount =
     feeSubScore_spec amount (Taker (Trading (Fees channel))) (Crypto (Withdrawal (Fees channel)))"
    by (simp add: calculateFeeScore_def feeSubScore_spec_def Let_def)
  have mono: "calculateFeeScore channel' amount < calculateFeeScore channel amount"
    if h: "?lo \<le> ?t" "?t < ?t'" "?t' \<le> ?hi"
  proof -
    have pos: "0 < ?hi - ?lo" using h by linarith
    have q: "(?t - ?lo) / (?hi - ?lo) < (?t' - ?lo) / (?hi - ?lo)"
      using h pos by (simp add: divide_strict_right_mono)
    have q1: "(?t' - ?lo) / (?hi - ?lo) \<le> 1" using h pos by (simp add: divide_le_eq_1)
    have q0: "0 \<le> (?t - ?lo) / (?hi - ?lo)" using h pos by simp
    have s': "calculateFeeScore channel' amount = 1 - (?t' - ?lo) / (?hi - ?lo)"
    proof (cases "?t' = ?hi")
      case True
      then show ?thesis using h pos by (simp add: calculateFeeScore_cases)
    next
      case False
      then show ?thesis using h by (simp add: calculateFeeScore_cases)
    qed
    have s: "calculateFeeScore channel amount = 1 - (?t - ?lo) / (?hi - ?lo)"
    proof (cases "?t = ?lo")
      case True
      then show ?thesis by (simp add: calculateFeeScore_cases)
    next
      case False
      then show ?thesis using h by (simp add: calculateFeeScore_cases)
    qed
    show ?thesis using q s s' by linarith
  qed
  have ex: "?t = 55 \<and> calculateFeeScore channel amount = 1 - 54 / 99"
    if "amount = 10000" "Taker (Trading (Fees channel)) = 0.005" "Crypto (Withdrawal (Fees channel)) = 5"
    using that by (simp add: calculateFeeScore_cases totalFee_def)
  have low: "?t \<le> ?lo \<longrightarrow> calculateFeeScore channel amount = 1"
    by (simp add: calculateFeeScore_cases)
  have high: "?lo < ?t \<and> ?t \<ge> ?hi \<longrightarrow> calculateFeeScore channel amount = 0"
    by (simp add: calculateFeeScore_cases)
  have mid: "?lo < ?t \<and> ?t < ?hi \<longrightarrow>
      calculateFeeScore channel amount = 1 - (?t - ?lo) / (?hi - ?lo)"
    by (simp add: calculateFeeScore_cases)
  have positive: "0 < amount \<and> ?t \<ge> ?hi \<longrightarrow> calculateFeeScore channel amount = 0"
  proof
    assume a: "0 < amount \<and> ?t \<ge> ?hi"
    then have "?lo < ?hi" by simp
    then have "?lo < ?t" using a by linarith
    then show "calculateFeeScore channel amount = 0" using a high by blast
  qed
  show ?thesis
    using refine low high positive mid mono ex by blast
qed

theorem calculateFeeScore_reference_witness:
  "totalFee (exampleChannel ''A'' 0.005 5) 10000 = 55
   \<and> calculateFeeScore (exampleChannel ''A'' 0.005 5) 10000 = 5 / 11
   \<and> calculateFeeScore (exampleChannel ''A'' 0.005 5) 10000
       = feeSubScore_spec 10000 0.005 5
   \<and> totalFee (exampleChannel ''B'' 0.005 6) 10000 = 56
   \<and> calculateFeeScore (exampleChannel ''B'' 0.005 6) 10000
       < calculateFeeScore (exampleChannel ''A'' 0.005 5) 10000
   \<and> calculateFeeScore (exampleChannel ''C'' 0 1) 10000 = 1
   \<and> calculateFeeScore (exampleChannel ''D'' 0.01 0) 10000 = 0"
  using calculateFeeScore_reference [of "exampleChannel ''A'' 0.005 5" 10000 "exampleChannel ''B'' 0.005 6"]
    calculateFeeScore_reference [of "exampleChannel ''C'' 0 1" 10000 "exampleChannel ''C'' 0 1"]
    calculateFeeScore_reference [of "exampleChannel ''D'' 0.01 0" 10000 "exampleChannel ''C'' 0 1"]
  by (simp add: totalFee_def exampleChannel_def)

text \<open>
  The claim as stated, "0 when the total fee is at least the ceiling" for every amount,
  fails where the floor test also holds: for amount 0 and no fees, floor, ceiling and total
  fee are all 0 and the sub-score is 1.
\<close>

theorem calculateFeeScore_floor_first_counterexample:
  "totalFee (exampleChannel ''Z'' 0 0) 0 \<ge> 0 * 0.01 \<and>
   calculateFeeScore (exampleChannel ''Z'' 0 0) 0 = 1 \<and>
   calculateFeeScore (exampleChannel ''Z'' 0 0) 0 \<noteq> 0"
  by (simp add: calculateFeeScore_cases totalFee_def exampleChannel_def)

text \<open>
  Claim C10. For every amount that is not negative, \<^verbatim>\<open>calculateFeeScore\<close> returns a
  number of the unit interval and never divides by zero: the interpolation is reached only
  when neither guard fires, and then the ceiling is above the floor, so the divisor is
  positive. When the amount is 0, floor and ceiling are 0 and the guards return 1 for a
  total fee of 0 and 0 for a positive total fee.
\<close>

theorem calculateFeeScore_no_division_by_zero:
  "0 \<le> amount \<Longrightarrow>
     (\<exists>v. calculateFeeScore_checked channel amount = Some v \<and> 0 \<le> v \<and> v \<le> 1
          \<and> calculateFeeScore channel amount = v)
   \<and> (\<not> totalFee channel amount \<le> amount * 0.0001 \<and> \<not> totalFee channel amount \<ge> amount * 0.01
        \<longrightarrow> amount * 0.01 > amount * 0.0001
            \<and> fdiv (totalFee channel amount - amount * 0.0001) (amount * 0.01 - amount * 0.0001) \<noteq> None)
   \<and> (amount = 0 \<longrightarrow> amount * 0.0001 = 0 \<and> amount * 0.01 = 0
        \<and> (totalFee channel amount = 0 \<longrightarrow> calculateFeeScore_checked channel amount = Some 1)
        \<and> (totalFee channel amount > 0 \<longrightarrow> calculateFeeScore_checked channel amount = Some 0))"
  using calculateFeeScore_range[of channel amount]
  by (auto simp: calculateFeeScore_checked_eq calculateFeeScore_cases fdiv_def)

theorem calculateFeeScore_no_division_by_zero_witness:
  "(0::real) \<le> 0
   \<and> totalFee (exampleChannel ''A'' 0.005 0) 0 = 0
   \<and> calculateFeeScore_checked (exampleChannel ''A'' 0.005 0) 0 = Some 1
   \<and> totalFee (exampleChannel ''B'' 0.005 5) 0 > 0
   \<and> calculateFeeScore_checked (exampleChannel ''B'' 0.005 5) 0 = Some 0
   \<and> (0::real) \<le> 10000
   \<and> \<not> totalFee (exampleChannel ''A'' 0.005 5) 10000 \<le> 10000 * 0.0001
   \<and> \<not> totalFee (exampleChannel ''A'' 0.005 5) 10000 \<ge> 10000 * 0.01
   \<and> fdiv (totalFee (exampleChannel ''A'' 0.005 5) 10000 - 10000 * 0.0001)
        (10000 * 0.01 - 10000 * 0.0001) = Some (6 / 11)
   \<and> calculateFeeScore_checked (exampleChannel ''A'' 0.005 5) 10000 = Some (5 / 11)"
  using calculateFeeScore_no_division_by_zero [of 0 "exampleChannel ''A'' 0.005 0"]
    calculateFeeScore_no_division_by_zero [of 0 "exampleChannel ''B'' 0.005 5"]
    calculateFeeScore_no_division_by_zero [of 10000 "exampleChannel ''A'' 0.005 5"]
  by (simp add: totalFee_def exampleChannel_def fdiv_def calculateFeeScore_checked_eq calculateFeeScore_cases)

text \<open>
  Claim C5. The five weights that \<^verbatim>\<open>calculateChannelMatch\<close> adds up in
  \<^verbatim>\<open>maxScore\<close> (0.30, 0.25, 0.20, 0.15, 0.10) sum to exactly 1, every sub-score,
  the user-experience one included, lies in the unit interval, and so does the normalized
  match score of every channel and request.
\<close>

theorem weights_sum_and_score_in_unit_interval:
  "snd (weightedScores channel request) = 1
   \<and> (0.30 + 0.25 + 0.20 + 0.15 + 0.10 = (1::real))
   \<and> fst (weightedScores channel request) =
       calculateFeeScore channel (Amount request) * 0.30
         + calculateAvailabilityScore channel request * 0.25
         + calculateUXScore channel request * 0.20
         + calculateSecurityScore channel * 0.15
         + calculateLiquidityScore channel (AssetID request) (Amount request) * 0.10
   \<and> 0 \<le> calculateFeeScore channel (Amount request)
   \<and> calculateFeeScore channel (Amount request) \<le> 1
   \<and> 0 \<le> calculateAvailabilityScore channel request
   \<and> calculateAvailabilityScore channel request \<le> 1
   \<and> 0 \<le> calculateUXScore channel request \<and> calculateUXScore channel request \<le> 1
   \<and> 0 \<le> calculateSecurityScore channel \<and> calculateSecurityScore channel \<le> 1
   \<and> 0 \<le> calculateLiquidityScore channel (AssetID request) (Amount request)
   \<and> calculateLiquidityScore channel (AssetID request) (Amount request) \<le> 1
   \<and> MatchScore (fst (calculateChannelMatch cfg newUUID now channel request w))
       = normalizedScore channel request
   \<and> 0 \<le> MatchScore (fst (calculateChannelMatch cfg newUUID now channel request w))
   \<and> MatchScore (fst (calculateChannelMatch cfg newUUID now channel request w)) \<le> 1"
proof -
  have m: "MatchScore (fst (calculateChannelMatch cfg newUUID now channel request w))
       = normalizedScore channel request"
    by (simp add: calculateChannelMatch_def split: prod.splits)
  show ?thesis
    using calculateFeeScore_range[of channel "Amount request"]
      calculateAvailabilityScore_range[of channel request]
      calculateUXScore_range[of channel request]
      calculateSecurityScore_range[of channel]
      calculateLiquidityScore_range[of channel "AssetID request" "Amount request"]
      normalizedScore_range[of channel request]
    by (simp add: m weightedScores_eq)
qed

text \<open>
  Claim C6. The availability sub-score starts at 1, loses 0.3 when the channel requires KYC
  and the request has no KYC level, 0.1 when the channel's minimum net worth is positive,
  0.4 when the requested payment method is not among the channel's, and is floored at 0.
  The availability object, computed on its own, is unavailable with the reason
  "KYC verification required" in the first case, and with the reason
  "Payment method not supported" in the last.
\<close>

theorem availability_score_and_object:
  "calculateAvailabilityScore channel request =
     max 0 (1 - (if KYCRequired (Compliance channel) \<and> KYCLevel request = [] then 0.3 else 0)
              - (if MinimumNetWorth (Compliance channel) > 0 then 0.1 else 0)
              - (if PaymentMethod request \<notin> Method ` set (PaymentMethods channel) then 0.4 else 0))
   \<and> 0 \<le> calculateAvailabilityScore channel request
   \<and> (KYCRequired (Compliance channel) \<and> KYCLevel request = [] \<longrightarrow>
        Available (checkChannelAvailability channel request) = False
        \<and> ''KYC verification required'' \<in> set (Reasons (checkChannelAvailability channel request)))
   \<and> (PaymentMethod request \<notin> Method ` set (PaymentMethods channel) \<longrightarrow>
        Available (checkChannelAvailability channel request) = False
        \<and> ''Payment method not supported'' \<in> set (Reasons (checkChannelAvailability channel request)))"
proof -
  have score: "calculateAvailabilityScore channel request =
     max 0 (1 - (if KYCRequired (Compliance channel) \<and> KYCLevel request = [] then 0.3 else 0)
              - (if MinimumNetWorth (Compliance channel) > 0 then 0.1 else 0)
              - (if PaymentMethod request \<notin> Method ` set (PaymentMethods channel) then 0.4 else 0))"
  proof (cases "KYCRequired (Compliance channel) \<and> KYCLevel request = []")
    case True
    then show ?thesis
      by (cases "MinimumNetWorth (Compliance channel) > 0";
          cases "supportedPayment (PaymentMethods channel) (PaymentMethod request)")
        (simp_all add: calculateAvailabilityScore_def Let_def supportedPayment_iff[symmetric])
  next
    case False
    then show ?thesis
      by (cases "MinimumNetWorth (Compliance channel) > 0";
          cases "supportedPayment (PaymentMethods channel) (PaymentMethod request)")
        (simp_all add: calculateAvailabilityScore_def Let_def supportedPayment_iff[symmetric])
  qed
  have kyc: "Available (checkChannelAvailability channel request) = False
        \<and> ''KYC verification required'' \<in> set (Reasons (checkChannelAvailability channel request))"
    if "KYCRequired (Compliance channel) \<and> KYCLevel request = []"
    using that unfolding checkChannelAvailability_def Let_def
    by (cases "supportedPayment (PaymentMethods channel) (PaymentMethod request)") simp_all
  have pay: "Available (checkChannelAvailability channel request) = False
        \<and> ''Payment method not supported'' \<in> set (Reasons (checkChannelAvailability channel request))"
    if "PaymentMethod request \<notin> Method ` set (PaymentMethods channel)"
    using that unfolding checkChannelAvailability_def Let_def supportedPayment_iff
    by (cases "KYCRequired (Compliance channel) \<and> KYCLevel request = []") simp_all
  show ?thesis
    using score kyc pay calculateAvailabilityScore_range[of channel request] by blast
qed

lemma channelKYC_fields:
  "KYCRequired (Compliance channelKYC)"
  "MinimumNetWorth (Compliance channelKYC) = 0"
  "PaymentMethods channelKYC = [\<lparr>Method = ''card''\<rparr>]"
  by (simp_all add: channelKYC_def exampleChannel_def)

lemma requestNoKYC_fields:
  "KYCLevel requestNoKYC = []"
  "PaymentMethod requestNoKYC = ''card''"
  "Amount requestNoKYC = 10000"
  by (simp_all add: requestNoKYC_def exampleRequest_def)

theorem availability_score_and_object_witness:
  "KYCRequired (Compliance channelKYC) \<and> KYCLevel (requestNoKYC\<lparr>PaymentMethod := ''wire''\<rparr>) = []
   \<and> ''wire'' \<notin> Method ` set (PaymentMethods channelKYC)
   \<and> calculateAvailabilityScore channelKYC (requestNoKYC\<lparr>PaymentMethod := ''wire''\<rparr>) = 0.3
   \<and> Available (checkChannelAvailability channelKYC (requestNoKYC\<lparr>PaymentMethod := ''wire''\<rparr>)) = False
   \<and> ''KYC verification required''
       \<in> set (Reasons (checkChannelAvailability channelKYC (requestNoKYC\<lparr>PaymentMethod := ''wire''\<rparr>)))
   \<and> ''Payment method not supported''
       \<in> set (Reasons (checkChannelAvailability channelKYC (requestNoKYC\<lparr>PaymentMethod := ''wire''\<rparr>)))"
proof -
  let ?request = "requestNoKYC\<lparr>PaymentMethod := ''wire''\<rparr>"
  have kyc: "KYCRequired (Compliance channelKYC) \<and> KYCLevel ?request = []"
    by (simp add: channelKYC_fields requestNoKYC_fields)
  have pay: "PaymentMethod ?request \<notin> Method ` set (PaymentMethods channelKYC)"
    by (simp add: channelKYC_fields)
  have "calculateAvailabilityScore channelKYC ?request = 0.3"
    using availability_score_and_object [of channelKYC ?request] kyc pay
    by (simp add: channelKYC_fields)
  then show ?thesis
    using availability_score_and_object [of channelKYC ?request] kyc pay
    by (simp add: channelKYC_fields)
qed

section \<open>Durations\<close>

text \<open>Up to 9223372036 seconds the product with \<^verbatim>\<open>time.Second\<close> does not wrap.\<close>

lemma secondsDuration_exact:
  "- 9223372036 \<le> n \<Longrightarrow> n \<le> 9223372036 \<Longrightarrow> secondsDuration n = n * 1000000000"
  unfolding secondsDuration_def int_word_sint by simp

text \<open>A whole number of seconds, wrapped or not, is even: it is never \<^verbatim>\<open>KeepTTL\<close>.\<close>

lemma secondsDuration_not_keepttl: "secondsDuration n \<noteq> - 1"
proof
  assume a: "secondsDuration n = - 1"
  have "(n * 1000000000 + 2 ^ 63) mod 2 ^ 64
      = (2 * (n * 500000000 + 2 ^ 62)) mod (2 * 2 ^ 63)" by (simp add: mult.commute)
  also have "\<dots> = 2 * ((n * 500000000 + 2 ^ 62) mod 2 ^ 63)"
    by (rule mult_mod_right[symmetric])
  finally have "even ((n * 1000000000 + 2 ^ 63) mod 2 ^ 64)" by simp
  then have "even ((n * 1000000000 + 2 ^ 63) mod 2 ^ 64 - 2 ^ 63)" by simp
  then have "even (secondsDuration n)" unfolding secondsDuration_def int_word_sint by simp
  then show False using a by simp
qed

text \<open>
  One second more and the product wraps to a negative duration: \<^verbatim>\<open>Expire\<close> then deletes
  the key, and \<^verbatim>\<open>Set\<close> stores the value without an expiry.
\<close>

lemma secondsDuration_wraps: "secondsDuration 9223372037 = - 9223372036709551616"
  unfolding secondsDuration_def int_word_sint by simp

lemma wrapped_duration:
  "formatSec (secondsDuration 9223372037) = - 9223372036"
  "setExpiry now (secondsDuration 9223372037) = None"
  by (simp_all add: secondsDuration_wraps formatSec_def goDiv_def setExpiry_def)

lemma formatSec_seconds:
  assumes "0 < n" and "n \<le> 9223372036"
  shows "formatSec (secondsDuration n) = n"
proof -
  have "secondsDuration n = n * 1000000000"
    using assms by (intro secondsDuration_exact) simp_all
  then show ?thesis using assms by (simp add: formatSec_def goDiv_def)
qed

lemma setExpiry_seconds:
  assumes "0 < n" and "n \<le> 9223372036"
  shows "setExpiry now (secondsDuration n) = Some ((now + n) * 1000)"
proof -
  have "secondsDuration n = n * 1000000000"
    using assms by (intro secondsDuration_exact) simp_all
  then show ?thesis
    using assms by (simp add: setExpiry_def usePrecise_def formatSec_def goDiv_def algebra_simps)
qed

lemma redis_Set_seconds:
  "redis_Set r now k v (secondsDuration n) = r(k \<mapsto> (v, setExpiry now (secondsDuration n)))"
  by (simp add: redis_Set_def secondsDuration_not_keepttl setExpiry_def)

section \<open>The matching engine in closed form\<close>

lemma matchOf_fields:
  "ChannelID (matchOf cfg newUUID now request n channel) = ID channel"
  "Channel (matchOf cfg newUUID now request n channel) = channel"
  "MatchScore (matchOf cfg newUUID now request n channel) = normalizedScore channel request"
  "Availability (matchOf cfg newUUID now request n channel) = checkChannelAvailability channel request"
  "tokenOf (RedirectInfo (matchOf cfg newUUID now request n channel)) = Some (newUUID n)"
  by (simp_all add: matchOf_def calculateChannelMatch_def generateRedirectInfo_def Let_def
      tokenOf_def split: prod.splits)

lemma calculateChannelMatch_eq:
  "calculateChannelMatch cfg newUUID now channel request w =
     (matchOf cfg newUUID now request (drawn w) channel,
      w\<lparr>drawn := Suc (drawn w),
        redis := (redis w)(redirectKey (newUUID (drawn w)) \<mapsto>
          (RedirectData (RedirectInfo (matchOf cfg newUUID now request (drawn w) channel)) request now,
           setExpiry now (secondsDuration (RedirectExpiration cfg))))\<rparr>)"
  by (simp add: matchOf_def calculateChannelMatch_def generateRedirectInfo_def Let_def
      cacheRedirectInfo_def redis_Set_seconds split: prod.splits)

lemma scoreChannels_eq:
  "scoreChannels cfg newUUID now channels request results w =
     (results @ filter (\<lambda>r. MinMatchingScore cfg \<le> MatchScore r)
        (candidates cfg newUUID now request (drawn w) channels),
      issueTokens cfg newUUID now request channels w)"
proof (induction channels arbitrary: results w)
  case Nil
  then show ?case by simp
next
  case (Cons channel channels)
  show ?case
    by (simp add: Cons.IH calculateChannelMatch_eq)
qed

lemma MatchChannels_eq:
  assumes "channels \<noteq> []"
  shows "MatchChannels srt cfg newUUID now (Inr channels) request w =
     (let results = srt (\<lambda>a b. MatchScore a > MatchScore b)
            (filter (\<lambda>r. MinMatchingScore cfg \<le> MatchScore r)
              (candidates cfg newUUID now request (drawn w) channels))
      in if int (length results) > MaxMatchingResults cfg
         then (if MaxMatchingResults cfg < 0 then Inl SliceBoundsPanic
               else Inr (take (nat (MaxMatchingResults cfg)) results))
         else Inr results,
      issueTokens cfg newUUID now request channels w)"
  using assms by (simp add: MatchChannels_def scoreChannels_eq Let_def)

lemma length_candidates [simp]:
  "length (candidates cfg newUUID now request n channels) = length channels"
  by (induction channels arbitrary: n) auto

lemma nth_candidates:
  "i < length channels \<Longrightarrow>
   candidates cfg newUUID now request n channels ! i =
     matchOf cfg newUUID now request (n + i) (channels ! i)"
proof (induction channels arbitrary: n i)
  case Nil
  then show ?case by simp
next
  case (Cons c cs)
  then show ?case by (cases i) auto
qed

lemma in_candidates:
  "r \<in> set (candidates cfg newUUID now request n channels) \<Longrightarrow>
   \<exists>i < length channels. r = matchOf cfg newUUID now request (n + i) (channels ! i)"
proof -
  assume "r \<in> set (candidates cfg newUUID now request n channels)"
  then obtain i where "i < length channels" "candidates cfg newUUID now request n channels ! i = r"
    by (auto simp: in_set_conv_nth)
  then show ?thesis using nth_candidates[of i channels cfg newUUID now request n] by auto
qed

lemma drawn_issueTokens:
  "drawn (issueTokens cfg newUUID now request channels w) = drawn w + length channels"
  by (induction channels arbitrary: w) (auto simp: calculateChannelMatch_eq)

lemma redirectKey_eq [simp]: "redirectKey a = redirectKey b \<longleftrightarrow> a = b"
  by (simp add: redirectKey_def)

lemma dom_issueTokens:
  "dom (redis (issueTokens cfg newUUID now request channels w)) =
     dom (redis w) \<union> (\<lambda>i. redirectKey (newUUID (drawn w + i))) ` {..<length channels}"
proof (induction channels arbitrary: w)
  case Nil
  then show ?case by simp
next
  case (Cons c cs)
  let ?w = "snd (calculateChannelMatch cfg newUUID now c request w)"
  let ?f = "\<lambda>i. redirectKey (newUUID (drawn w + i))"
  have dw: "drawn ?w = Suc (drawn w)" by (simp add: calculateChannelMatch_eq)
  have dm: "dom (redis ?w) = insert (?f 0) (dom (redis w))"
    by (simp add: calculateChannelMatch_eq)
  have img: "?f ` {..<Suc (length cs)} = insert (?f 0) ((\<lambda>i. ?f (Suc i)) ` {..<length cs})"
    unfolding lessThan_Suc_eq_insert_0 image_insert image_image ..
  have "dom (redis (issueTokens cfg newUUID now request (c # cs) w)) =
        dom (redis ?w) \<union> (\<lambda>i. redirectKey (newUUID (drawn ?w + i))) ` {..<length cs}"
    using Cons.IH[of ?w] by simp
  also have "\<dots> = insert (?f 0) (dom (redis w)) \<union> (\<lambda>i. ?f (Suc i)) ` {..<length cs}"
    by (simp only: dm dw add_Suc add_Suc_right)
  also have "\<dots> = dom (redis w) \<union> ?f ` {..<Suc (length cs)}"
    unfolding img by blast
  finally show ?case by simp
qed

lemma redis_issueTokens_other:
  "k \<notin> (\<lambda>i. redirectKey (newUUID (drawn w + i))) ` {..<length channels} \<Longrightarrow>
   redis (issueTokens cfg newUUID now request channels w) k = redis w k"
proof (induction channels arbitrary: w)
  case Nil
  then show ?case by simp
next
  case (Cons c cs)
  let ?w = "snd (calculateChannelMatch cfg newUUID now c request w)"
  have dw: "drawn ?w = Suc (drawn w)" by (simp add: calculateChannelMatch_eq)
  have a: "k \<noteq> redirectKey (newUUID (drawn w))"
  proof
    assume "k = redirectKey (newUUID (drawn w))"
    then have "k = (\<lambda>i. redirectKey (newUUID (drawn w + i))) 0" by simp
    moreover have "(0::nat) \<in> {..<length (c # cs)}" by simp
    ultimately have "k \<in> (\<lambda>i. redirectKey (newUUID (drawn w + i))) ` {..<length (c # cs)}"
      by (rule image_eqI)
    then show False using Cons.prems by simp
  qed
  have b: "k \<notin> (\<lambda>i. redirectKey (newUUID (drawn ?w + i))) ` {..<length cs}"
  proof
    assume "k \<in> (\<lambda>i. redirectKey (newUUID (drawn ?w + i))) ` {..<length cs}"
    then obtain i where i: "i < length cs" "k = redirectKey (newUUID (drawn ?w + i))" by auto
    then have "k = (\<lambda>i. redirectKey (newUUID (drawn w + i))) (Suc i)" by (simp add: dw)
    moreover have "Suc i \<in> {..<length (c # cs)}" using i by simp
    ultimately have "k \<in> (\<lambda>i. redirectKey (newUUID (drawn w + i))) ` {..<length (c # cs)}"
      by (rule image_eqI)
    then show False using Cons.prems by simp
  qed
  have "redis (issueTokens cfg newUUID now request (c # cs) w) k = redis ?w k"
    using Cons.IH[OF b] by simp
  also have "\<dots> = redis w k"
    using a by (simp add: calculateChannelMatch_eq)
  finally show ?case .
qed

lemma redis_issueTokens_token:
  assumes "inj_on newUUID {drawn w ..< drawn w + length channels}" and "i < length channels"
  shows "redis (issueTokens cfg newUUID now request channels w)
           (redirectKey (newUUID (drawn w + i))) =
         Some (RedirectData
                 (RedirectInfo (matchOf cfg newUUID now request (drawn w + i) (channels ! i)))
                 request now,
               setExpiry now (secondsDuration (RedirectExpiration cfg)))"
  using assms
proof (induction channels arbitrary: w i)
  case Nil
  then show ?case by simp
next
  case (Cons c cs)
  let ?w = "snd (calculateChannelMatch cfg newUUID now c request w)"
  have dw: "drawn ?w = Suc (drawn w)" by (simp add: calculateChannelMatch_eq)
  have inj': "inj_on newUUID {drawn ?w ..< drawn ?w + length cs}"
    using Cons.prems(1) by (auto simp: dw intro: inj_on_subset)
  show ?case
  proof (cases i)
    case 0
    have "redirectKey (newUUID (drawn w)) \<notin>
            (\<lambda>j. redirectKey (newUUID (drawn ?w + j))) ` {..<length cs}"
    proof
      assume "redirectKey (newUUID (drawn w)) \<in>
            (\<lambda>j. redirectKey (newUUID (drawn ?w + j))) ` {..<length cs}"
      then obtain j where j: "j < length cs" "newUUID (drawn w) = newUUID (Suc (drawn w) + j)"
        by (auto simp: dw)
      then have "drawn w = Suc (drawn w) + j"
        using Cons.prems(1) by (auto simp: inj_on_def)
      then show False by simp
    qed
    then have "redis (issueTokens cfg newUUID now request cs ?w) (redirectKey (newUUID (drawn w)))
        = redis ?w (redirectKey (newUUID (drawn w)))"
      by (rule redis_issueTokens_other)
    then show ?thesis using 0 by (simp add: calculateChannelMatch_eq)
  next
    case (Suc j)
    then have "j < length cs" using Cons.prems(2) by simp
    from Cons.IH[OF inj' this] show ?thesis using Suc by (simp add: dw)
  qed
qed

section \<open>Sorting\<close>

lemma strict_weak_score: "strict_weak (\<lambda>a b. MatchScore a > MatchScore b)"
  by (auto simp: strict_weak_def)

lemma mset_insertLeft: "mset (insertLeft lt x ys) = add_mset x (mset ys)"
  by (induction ys) auto

lemma set_insertLeft: "set (insertLeft lt x ys) = insert x (set ys)"
  by (induction ys) auto

lemma sorted_insertLeft:
  assumes "strict_weak lt" and "sorted_wrt (\<lambda>a b. \<not> lt a b) ys"
  shows "sorted_wrt (\<lambda>a b. \<not> lt a b) (insertLeft lt x ys)"
  using assms(2)
proof (induction ys)
  case Nil
  then show ?case by simp
next
  case (Cons y ys)
  have asym: "\<not> lt b a" if "lt a b" for a b
    using assms(1) that unfolding strict_weak_def by blast
  have ntrans: "\<not> lt a c" if "\<not> lt a b" "\<not> lt b c" for a b c
    using assms(1) that unfolding strict_weak_def by blast
  from Cons.prems have tail: "sorted_wrt (\<lambda>a b. \<not> lt a b) ys"
    and head: "\<forall>z \<in> set ys. \<not> lt y z" by simp_all
  show ?case
  proof (cases "lt x y")
    case True
    have "\<forall>z \<in> set (insertLeft lt x ys). \<not> lt y z"
      using head asym[OF True] by (simp add: set_insertLeft)
    then show ?thesis using True Cons.IH[OF tail] by simp
  next
    case False
    have "\<forall>z \<in> set ys. \<not> lt x z"
      using head ntrans[OF False] by blast
    then show ?thesis using False Cons.prems by simp
  qed
qed

lemma foldl_insertLeft:
  "mset (foldl (\<lambda>prefix x. insertLeft lt x prefix) acc xs) = mset acc + mset xs"
  by (induction xs arbitrary: acc) (auto simp: mset_insertLeft)

lemma sorted_foldl_insertLeft:
  "strict_weak lt \<Longrightarrow> sorted_wrt (\<lambda>a b. \<not> lt a b) acc \<Longrightarrow>
   sorted_wrt (\<lambda>a b. \<not> lt a b) (foldl (\<lambda>prefix x. insertLeft lt x prefix) acc xs)"
  by (induction xs arbitrary: acc) (auto simp: sorted_insertLeft)

lemma insertionSort_spec: "sortSlice_spec insertionSort"
  unfolding sortSlice_spec_def
proof (intro allI impI conjI)
  fix lt :: "'a \<Rightarrow> 'a \<Rightarrow> bool" and xs :: "'a list"
  assume sw: "strict_weak lt"
  show "mset (insertionSort lt xs) = mset xs"
    by (simp add: insertionSort_def foldl_insertLeft)
  have "sorted_wrt (\<lambda>a b. \<not> lt a b) (foldl (\<lambda>prefix x. insertLeft lt x prefix) [] xs)"
    using sw by (rule sorted_foldl_insertLeft) simp
  then show "sorted_wrt (\<lambda>a b. \<not> lt b a) (insertionSort lt xs)"
    by (simp add: insertionSort_def sorted_wrt_rev)
qed

lemma sortSlice_score:
  assumes "sortSlice_spec srt"
  shows "mset (srt (\<lambda>a b. MatchScore a > MatchScore b) xs) = mset xs"
    and "sorted_wrt (\<lambda>a b. MatchScore a \<ge> MatchScore b) (srt (\<lambda>a b. MatchScore a > MatchScore b) xs)"
proof -
  have "mset (srt (\<lambda>a b. MatchScore a > MatchScore b) xs) = mset xs \<and>
        sorted_wrt (\<lambda>a b. \<not> MatchScore b > MatchScore a) (srt (\<lambda>a b. MatchScore a > MatchScore b) xs)"
    using assms strict_weak_score unfolding sortSlice_spec_def by blast
  then show "mset (srt (\<lambda>a b. MatchScore a > MatchScore b) xs) = mset xs"
    and "sorted_wrt (\<lambda>a b. MatchScore a \<ge> MatchScore b) (srt (\<lambda>a b. MatchScore a > MatchScore b) xs)"
    by (simp_all add: not_less)
qed

lemma sorted_take_drop:
  assumes "sorted_wrt (\<lambda>a b. f a \<ge> (f b :: real)) xs"
  shows "\<forall>d \<in> set (drop n xs). \<forall>r \<in> set (take n xs). f d \<le> f r"
proof -
  have "sorted_wrt (\<lambda>a b. f a \<ge> f b) (take n xs @ drop n xs)" using assms by simp
  then show ?thesis unfolding sorted_wrt_append by blast
qed

section \<open>Concrete runs\<close>

lemma exampleChannel_scores:
  "calculateUXScore (exampleChannel name taker withdrawal) request = 1"
  "calculateSecurityScore (exampleChannel name taker withdrawal) = 1"
  "calculateLiquidityScore (exampleChannel name taker withdrawal) a m = 0.9"
  by (simp_all add: calculateUXScore_def calculateSecurityScore_def calculateLiquidityScore_def
      exampleChannel_def Let_def)

lemma exampleChannel_availability:
  "calculateAvailabilityScore (exampleChannel name taker withdrawal) exampleRequest = 1"
  by (simp add: calculateAvailabilityScore_def exampleChannel_def exampleRequest_def Let_def)

lemma exampleRequest_fields:
  "Amount exampleRequest = 10000" "KYCLevel exampleRequest = ''basic''"
  "PaymentMethod exampleRequest = ''card''"
  by (simp_all add: exampleRequest_def)

lemma score_channel075: "normalizedScore channel075 exampleRequest = 0.75"
  by (simp add: normalizedScore_def weightedScores_eq channel075_def exampleChannel_scores
      exampleChannel_availability exampleChannel_feeScore exampleRequest_fields
      feeSubScore_spec_def)

lemma score_channel090: "normalizedScore channel090 exampleRequest = 0.9"
  by (simp add: normalizedScore_def weightedScores_eq channel090_def exampleChannel_scores
      exampleChannel_availability exampleChannel_feeScore exampleRequest_fields
      feeSubScore_spec_def)

lemma score_channel055: "normalizedScore channel055 exampleRequest = 0.55"
proof -
  have "calculateFeeScore channel055 10000 = 0"
    by (simp add: calculateFeeScore_def channel055_def exampleChannel_def)
  moreover have "calculateAvailabilityScore channel055 exampleRequest = 1"
    by (simp add: calculateAvailabilityScore_def channel055_def exampleChannel_def
        exampleRequest_def Let_def)
  moreover have "calculateUXScore channel055 exampleRequest = 0.5"
    by (simp add: calculateUXScore_def channel055_def exampleChannel_def Let_def)
  moreover have "calculateSecurityScore channel055 = 1"
    by (simp add: calculateSecurityScore_def channel055_def exampleChannel_def Let_def)
  moreover have "calculateLiquidityScore channel055 (AssetID exampleRequest) 10000 = 0.5"
    by (simp add: calculateLiquidityScore_def channel055_def exampleChannel_def)
  ultimately show ?thesis
    by (simp add: normalizedScore_def weightedScores_eq exampleRequest_fields)
qed

lemma score_channelKYC: "normalizedScore channelKYC requestNoKYC = 0.915"
proof -
  have "calculateFeeScore channelKYC 10000 = 1"
    by (simp add: calculateFeeScore_def channelKYC_def exampleChannel_def)
  moreover have "calculateAvailabilityScore channelKYC requestNoKYC = 0.7"
    by (simp add: calculateAvailabilityScore_def channelKYC_fields requestNoKYC_fields Let_def)
  moreover have "calculateUXScore channelKYC requestNoKYC = 1"
    by (simp add: calculateUXScore_def channelKYC_def exampleChannel_def Let_def)
  moreover have "calculateSecurityScore channelKYC = 1"
    by (simp add: calculateSecurityScore_def channelKYC_def exampleChannel_def Let_def)
  moreover have "calculateLiquidityScore channelKYC (AssetID requestNoKYC) 10000 = 0.9"
    by (simp add: calculateLiquidityScore_def channelKYC_def exampleChannel_def)
  ultimately show ?thesis
    by (simp add: normalizedScore_def weightedScores_eq requestNoKYC_fields)
qed

lemma setDefaults_fields:
  "MaxMatchingResults setDefaults = 10" "MinMatchingScore setDefaults = 0.6"
  "RedirectExpiration setDefaults = 3600" "AttributionWindow setDefaults = 86400"
  by (simp_all add: setDefaults_def)

lemma setDefaults_expiry:
  "setExpiry 0 (secondsDuration (RedirectExpiration setDefaults)) = Some 3600000"
  by (simp add: setExpiry_seconds setDefaults_fields)

lemma emptyWorld_fields: "drawn emptyWorld = 0" "redis emptyWorld = Map.empty"
  by (simp_all add: emptyWorld_def)

lemma run_channelKYC:
  "MatchChannels insertionSort setDefaults exampleUUID 0 (Inr [channelKYC]) requestNoKYC emptyWorld =
     (Inr [matchOf setDefaults exampleUUID 0 requestNoKYC 0 channelKYC],
      issueTokens setDefaults exampleUUID 0 requestNoKYC [channelKYC] emptyWorld)"
  by (simp add: MatchChannels_eq matchOf_fields score_channelKYC setDefaults_fields
      emptyWorld_fields insertionSort_def Let_def del: issueTokens.simps)

lemma run_channel055:
  "MatchChannels insertionSort setDefaults exampleUUID 0 (Inr [channel055]) exampleRequest emptyWorld =
     (Inr [], issueTokens setDefaults exampleUUID 0 exampleRequest [channel055] emptyWorld)"
  by (simp add: MatchChannels_eq matchOf_fields score_channel055 setDefaults_fields
      emptyWorld_fields insertionSort_def Let_def del: issueTokens.simps)

lemma run_three:
  "MatchChannels insertionSort setDefaults exampleUUID 0 (Inr [channel075, channel055, channel090])
       exampleRequest emptyWorld =
     (Inr [matchOf setDefaults exampleUUID 0 exampleRequest 2 channel090,
           matchOf setDefaults exampleUUID 0 exampleRequest 0 channel075],
      issueTokens setDefaults exampleUUID 0 exampleRequest [channel075, channel055, channel090] emptyWorld)"
  by (simp add: MatchChannels_eq matchOf_fields score_channel075 score_channel055 score_channel090
      setDefaults_fields emptyWorld_fields insertionSort_def Let_def
      del: issueTokens.simps flip: numeral_2_eq_2)

section \<open>The ranked list\<close>

lemma MatchChannels_Inr:
  assumes "MatchChannels srt cfg newUUID now fetched request w = (Inr results, w')"
  obtains channels where "fetched = Inr channels" "channels \<noteq> []"
proof (cases fetched)
  case (Inl e)
  then show ?thesis using assms by (simp add: MatchChannels_def)
next
  case (Inr channels)
  then have "channels \<noteq> []" using assms by (auto simp: MatchChannels_def)
  then show ?thesis using Inr that by blast
qed

text \<open>What a successful call returns: the sorted qualifying candidates, cut to the maximum.\<close>

lemma MatchChannels_results:
  assumes "channels \<noteq> []"
    and "MatchChannels srt cfg newUUID now (Inr channels) request w = (Inr results, w')"
  shows "0 \<le> MaxMatchingResults cfg"
    and "results = take (nat (MaxMatchingResults cfg))
           (srt (\<lambda>a b. MatchScore a > MatchScore b)
             (filter (\<lambda>r. MinMatchingScore cfg \<le> MatchScore r)
               (candidates cfg newUUID now request (drawn w) channels)))"
    and "w' = issueTokens cfg newUUID now request channels w"
proof -
  let ?rs = "srt (\<lambda>a b. MatchScore a > MatchScore b)
             (filter (\<lambda>r. MinMatchingScore cfg \<le> MatchScore r)
               (candidates cfg newUUID now request (drawn w) channels))"
  have eq: "(if int (length ?rs) > MaxMatchingResults cfg
         then (if MaxMatchingResults cfg < 0 then Inl SliceBoundsPanic
               else Inr (take (nat (MaxMatchingResults cfg)) ?rs))
         else Inr ?rs) = Inr results" and w': "w' = issueTokens cfg newUUID now request channels w"
    using assms(2) unfolding MatchChannels_eq[OF assms(1)] Let_def by simp_all
  show "w' = issueTokens cfg newUUID now request channels w" by (rule w')
  show "0 \<le> MaxMatchingResults cfg"
  proof (rule ccontr)
    assume "\<not> 0 \<le> MaxMatchingResults cfg"
    then have "MaxMatchingResults cfg < 0" "int (length ?rs) > MaxMatchingResults cfg" by simp_all
    then show False using eq by simp
  qed
  show "results = take (nat (MaxMatchingResults cfg)) ?rs"
  proof (cases "int (length ?rs) > MaxMatchingResults cfg")
    case True
    then show ?thesis using eq by (simp split: if_splits)
  next
    case False
    then have "length ?rs \<le> nat (MaxMatchingResults cfg)" by simp
    then show ?thesis using False eq by simp
  qed
qed

lemma MatchChannels_total:
  assumes "channels \<noteq> []" and "0 \<le> MaxMatchingResults cfg"
  shows "\<exists>results w'. MatchChannels srt cfg newUUID now (Inr channels) request w = (Inr results, w')"
  using assms(2) unfolding MatchChannels_eq[OF assms(1)] Let_def by simp

lemma mset_two:
  assumes "mset xs = {#a, b#}"
  shows "xs = [a, b] \<or> xs = [b, a]"
proof -
  have "length xs = 2" using assms by (metis size_mset size_add_mset size_empty numeral_2_eq_2)
  then obtain x y where xs: "xs = [x, y]"
    by (metis (no_types) length_0_conv length_Suc_conv numeral_2_eq_2)
  then show ?thesis using assms by (auto simp: add_eq_conv_ex)
qed

text \<open>
  Claim C1, as amended. \<^verbatim>\<open>MatchChannels\<close> filters on the score only: every element of
  the returned list has a match score of at least the configured minimum and carries the
  availability object computed for its channel, and when the maximum does not cut the
  list, every eligible channel that scores at least the minimum is returned, whatever its
  availability. (A result with \<^verbatim>\<open>available == false\<close> is therefore returned when its
  score reaches the minimum.)
\<close>

theorem MatchChannels_filters_on_score_only:
  assumes "sortSlice_spec srt"
    and "MatchChannels srt cfg newUUID now fetched request w = (Inr results, w')"
  shows "(\<forall>r \<in> set results.
            MinMatchingScore cfg \<le> MatchScore r
          \<and> MatchScore r = normalizedScore (Channel r) request
          \<and> Availability r = checkChannelAvailability (Channel r) request
          \<and> (\<exists>channels. fetched = Inr channels \<and> Channel r \<in> set channels))
       \<and> (\<forall>channels. fetched = Inr channels
            \<and> int (length (filter (\<lambda>c. MinMatchingScore cfg \<le> normalizedScore c request) channels))
                  \<le> MaxMatchingResults cfg
            \<longrightarrow> mset (map Channel results)
                  = mset (filter (\<lambda>c. MinMatchingScore cfg \<le> normalizedScore c request) channels))"
proof -
  from assms(2) obtain channels where f: "fetched = Inr channels" and ne: "channels \<noteq> []"
    by (rule MatchChannels_Inr)
  let ?cands = "candidates cfg newUUID now request (drawn w) channels"
  let ?qual = "filter (\<lambda>r. MinMatchingScore cfg \<le> MatchScore r) ?cands"
  let ?rs = "srt (\<lambda>a b. MatchScore a > MatchScore b) ?qual"
  have res: "results = take (nat (MaxMatchingResults cfg)) ?rs"
    using MatchChannels_results(2)[OF ne assms(2)[unfolded f]] .
  have ms: "mset ?rs = mset ?qual" using sortSlice_score(1)[OF assms(1)] .
  have mapc: "map Channel ?cands = channels"
    by (rule nth_equalityI) (simp_all add: nth_candidates matchOf_fields)
  have quals: "map Channel ?qual = filter (\<lambda>c. MinMatchingScore cfg \<le> normalizedScore c request) channels"
  proof -
    have "map Channel ?qual =
          filter (\<lambda>c. MinMatchingScore cfg \<le> normalizedScore c request) (map Channel ?cands)"
      unfolding filter_map
      by (rule arg_cong[where f="map Channel"], rule filter_cong)
        (auto dest!: in_candidates simp: matchOf_fields)
    then show ?thesis by (simp only: mapc)
  qed
  have each: "MinMatchingScore cfg \<le> MatchScore r
          \<and> MatchScore r = normalizedScore (Channel r) request
          \<and> Availability r = checkChannelAvailability (Channel r) request
          \<and> (\<exists>channels. fetched = Inr channels \<and> Channel r \<in> set channels)"
    if "r \<in> set results" for r
  proof -
    have "r \<in> set ?rs" using that res by (auto dest: in_set_takeD)
    then have "r \<in> set ?qual" using ms by (metis set_mset_mset)
    then have q: "MinMatchingScore cfg \<le> MatchScore r" and c: "r \<in> set ?cands" by auto
    from in_candidates[OF c] obtain i where i: "i < length channels"
      "r = matchOf cfg newUUID now request (drawn w + i) (channels ! i)" by blast
    then show ?thesis using q f by (auto simp: matchOf_fields)
  qed
  have all: "mset (map Channel results)
      = mset (filter (\<lambda>c. MinMatchingScore cfg \<le> normalizedScore c request) channels)"
    if "int (length (filter (\<lambda>c. MinMatchingScore cfg \<le> normalizedScore c request) channels))
          \<le> MaxMatchingResults cfg"
  proof -
    have "length ?qual = length (filter (\<lambda>c. MinMatchingScore cfg \<le> normalizedScore c request) channels)"
      using quals by (metis length_map)
    moreover have "length ?rs = length ?qual" using ms by (metis size_mset)
    ultimately have "length ?rs \<le> nat (MaxMatchingResults cfg)" using that by simp
    then have "results = ?rs" using res by simp
    then have "mset (map Channel results) = mset (map Channel ?qual)"
      using ms by (metis mset_map)
    then show ?thesis by (simp only: quals)
  qed
  show ?thesis using each all f by blast
qed

lemma availability_channelKYC:
  "checkChannelAvailability channelKYC requestNoKYC =
     \<lparr>Available = False, Reasons = [''KYC verification required'']\<rparr>"
  by (simp add: checkChannelAvailability_def channelKYC_fields requestNoKYC_fields Let_def)

text \<open>
  A channel that requires KYC, asked for by a request without a KYC level, scores 0.915
  and is returned with \<^verbatim>\<open>available == false\<close>.
\<close>

theorem MatchChannels_filters_on_score_only_witness:
  "sortSlice_spec insertionSort
   \<and> MatchChannels insertionSort setDefaults exampleUUID 0 (Inr [channelKYC]) requestNoKYC emptyWorld
       = (Inr [matchOf setDefaults exampleUUID 0 requestNoKYC 0 channelKYC],
          issueTokens setDefaults exampleUUID 0 requestNoKYC [channelKYC] emptyWorld)
   \<and> MinMatchingScore setDefaults \<le> MatchScore (matchOf setDefaults exampleUUID 0 requestNoKYC 0 channelKYC)
   \<and> MatchScore (matchOf setDefaults exampleUUID 0 requestNoKYC 0 channelKYC) = 0.915
   \<and> Availability (matchOf setDefaults exampleUUID 0 requestNoKYC 0 channelKYC)
       = \<lparr>Available = False, Reasons = [''KYC verification required'']\<rparr>"
  using MatchChannels_filters_on_score_only [OF insertionSort_spec run_channelKYC]
    insertionSort_spec run_channelKYC
  by (simp add: matchOf_fields score_channelKYC availability_channelKYC)

text \<open>The claim as stated fails on the same input.\<close>

theorem unavailable_result_returned_counterexample:
  "fst (MatchChannels insertionSort setDefaults exampleUUID 0 (Inr [channelKYC]) requestNoKYC emptyWorld)
     = Inr [matchOf setDefaults exampleUUID 0 requestNoKYC 0 channelKYC]
   \<and> Available (Availability (matchOf setDefaults exampleUUID 0 requestNoKYC 0 channelKYC)) = False"
  by (simp add: run_channelKYC matchOf_fields availability_channelKYC)

text \<open>
  Claim C2, as amended. For a request with a non-empty eligible channel set, the list that
  \<^verbatim>\<open>MatchChannels\<close> returns is ordered by non-increasing match score, has at most the
  configured maximum of elements, and consists of scored candidates whose score is at
  least the configured minimum: all of them when no more than the maximum qualify, and
  otherwise the maximum number of them, none scoring below a qualifying candidate that was
  left out. For three channels scored 0.75, 0.55 and 0.90 with minimum 0.6 (and a maximum
  of at least 2) the result is the 0.90 channel followed by the 0.75 channel. The defaults
  are 0.6 and 10. A list is returned whenever the configured maximum is not negative (a
  negative maximum makes the slice expression panic).
\<close>

theorem MatchChannels_ranked_top:
  assumes "sortSlice_spec srt" and "channels \<noteq> []"
  shows "MinMatchingScore setDefaults = 0.6 \<and> MaxMatchingResults setDefaults = 10
    \<and> (0 \<le> MaxMatchingResults cfg \<longrightarrow>
         (\<exists>results. fst (MatchChannels srt cfg newUUID now (Inr channels) request w) = Inr results))
    \<and> (\<forall>results. fst (MatchChannels srt cfg newUUID now (Inr channels) request w) = Inr results \<longrightarrow>
          sorted_wrt (\<lambda>a b. MatchScore a \<ge> MatchScore b) results
        \<and> int (length results) \<le> MaxMatchingResults cfg
        \<and> (\<exists>dropped.
              mset (filter (\<lambda>r. MinMatchingScore cfg \<le> MatchScore r)
                     (candidates cfg newUUID now request (drawn w) channels))
                = mset results + mset dropped
            \<and> (\<forall>d \<in> set dropped. \<forall>r \<in> set results. MatchScore d \<le> MatchScore r)
            \<and> (dropped \<noteq> [] \<longrightarrow> int (length results) = MaxMatchingResults cfg))
        \<and> (\<forall>a b c. channels = [a, b, c]
              \<and> normalizedScore a request = 0.75 \<and> normalizedScore b request = 0.55
              \<and> normalizedScore c request = 0.90
              \<and> MinMatchingScore cfg = 0.6 \<and> 2 \<le> MaxMatchingResults cfg
              \<longrightarrow> map Channel results = [c, a] \<and> map MatchScore results = [0.90, 0.75]))"
proof -
  let ?n = "nat (MaxMatchingResults cfg)"
  let ?cands = "candidates cfg newUUID now request (drawn w) channels"
  let ?qual = "filter (\<lambda>r. MinMatchingScore cfg \<le> MatchScore r) ?cands"
  let ?rs = "srt (\<lambda>a b. MatchScore a > MatchScore b) ?qual"
  let ?call = "MatchChannels srt cfg newUUID now (Inr channels) request w"
  have returns: "\<exists>results. fst ?call = Inr results" if "0 \<le> MaxMatchingResults cfg"
    using MatchChannels_total[OF assms(2) that, of srt newUUID now request w] by auto
  have ms: "mset ?rs = mset ?qual" and srt: "sorted_wrt (\<lambda>a b. MatchScore a \<ge> MatchScore b) ?rs"
    using sortSlice_score[OF assms(1)] by simp_all
  have ranked: "sorted_wrt (\<lambda>a b. MatchScore a \<ge> MatchScore b) results
        \<and> int (length results) \<le> MaxMatchingResults cfg
        \<and> (\<exists>dropped. mset ?qual = mset results + mset dropped
            \<and> (\<forall>d \<in> set dropped. \<forall>r \<in> set results. MatchScore d \<le> MatchScore r)
            \<and> (dropped \<noteq> [] \<longrightarrow> int (length results) = MaxMatchingResults cfg))
        \<and> (\<forall>a b c. channels = [a, b, c]
              \<and> normalizedScore a request = 0.75 \<and> normalizedScore b request = 0.55
              \<and> normalizedScore c request = 0.90
              \<and> MinMatchingScore cfg = 0.6 \<and> 2 \<le> MaxMatchingResults cfg
              \<longrightarrow> map Channel results = [c, a] \<and> map MatchScore results = [0.90, 0.75])"
    if out: "fst ?call = Inr results" for results
  proof -
    have call: "?call = (Inr results, snd ?call)" using out by (metis prod.collapse)
    have nonneg: "0 \<le> MaxMatchingResults cfg" and res: "results = take ?n ?rs"
      using MatchChannels_results[OF assms(2) call] by simp_all
    have sorted: "sorted_wrt (\<lambda>a b. MatchScore a \<ge> MatchScore b) results"
      unfolding res using srt by (rule sorted_wrt_take)
    have len: "int (length results) \<le> MaxMatchingResults cfg"
      unfolding res using nonneg by simp
    have split: "mset ?qual = mset results + mset (drop ?n ?rs)"
      unfolding res by (metis ms append_take_drop_id mset_append)
    have top: "\<forall>d \<in> set (drop ?n ?rs). \<forall>r \<in> set results. MatchScore d \<le> MatchScore r"
      unfolding res using srt by (rule sorted_take_drop)
    have full: "drop ?n ?rs \<noteq> [] \<longrightarrow> int (length results) = MaxMatchingResults cfg"
      unfolding res using nonneg by auto
    have ex: "map Channel results = [c, a] \<and> map MatchScore results = [0.90, 0.75]"
      if h: "channels = [a, b, c]" "normalizedScore a request = 0.75"
        "normalizedScore b request = 0.55" "normalizedScore c request = 0.90"
        "MinMatchingScore cfg = 0.6" "2 \<le> MaxMatchingResults cfg" for a b c
    proof -
      let ?ma = "matchOf cfg newUUID now request (drawn w) a"
      let ?mc = "matchOf cfg newUUID now request (Suc (Suc (drawn w))) c"
      have q: "?qual = [?ma, ?mc]" using h by (simp add: matchOf_fields)
      then have "mset ?rs = {#?ma, ?mc#}" using ms by simp
      then have "?rs = [?ma, ?mc] \<or> ?rs = [?mc, ?ma]" by (rule mset_two)
      moreover have "?rs \<noteq> [?ma, ?mc]"
      proof
        assume "?rs = [?ma, ?mc]"
        then have "MatchScore ?ma \<ge> MatchScore ?mc" using srt by simp
        then show False using h by (simp add: matchOf_fields)
      qed
      ultimately have "?rs = [?mc, ?ma]" by blast
      moreover have "2 \<le> ?n" using h(6) by simp
      ultimately have "results = [?mc, ?ma]" unfolding res by simp
      then show ?thesis using h by (simp add: matchOf_fields)
    qed
    show ?thesis using sorted len split top full ex by blast
  qed
  show ?thesis using returns ranked setDefaults_fields by blast
qed

theorem MatchChannels_ranked_top_witness:
  "sortSlice_spec insertionSort \<and> [channel075, channel055, channel090] \<noteq> []
   \<and> 0 \<le> MaxMatchingResults setDefaults
   \<and> fst (MatchChannels insertionSort setDefaults exampleUUID 0
        (Inr [channel075, channel055, channel090]) exampleRequest emptyWorld)
       = Inr [matchOf setDefaults exampleUUID 0 exampleRequest 2 channel090,
              matchOf setDefaults exampleUUID 0 exampleRequest 0 channel075]
   \<and> normalizedScore channel075 exampleRequest = 0.75
   \<and> normalizedScore channel055 exampleRequest = 0.55
   \<and> normalizedScore channel090 exampleRequest = 0.90
   \<and> MinMatchingScore setDefaults = 0.6 \<and> 2 \<le> MaxMatchingResults setDefaults
   \<and> map Channel [matchOf setDefaults exampleUUID 0 exampleRequest 2 channel090,
                   matchOf setDefaults exampleUUID 0 exampleRequest 0 channel075]
       = [channel090, channel075]
   \<and> map MatchScore [matchOf setDefaults exampleUUID 0 exampleRequest 2 channel090,
                      matchOf setDefaults exampleUUID 0 exampleRequest 0 channel075]
       = [0.90, 0.75]"
proof -
  have ne: "[channel075, channel055, channel090] \<noteq> []" by simp
  have out: "fst (MatchChannels insertionSort setDefaults exampleUUID 0
        (Inr [channel075, channel055, channel090]) exampleRequest emptyWorld)
       = Inr [matchOf setDefaults exampleUUID 0 exampleRequest 2 channel090,
              matchOf setDefaults exampleUUID 0 exampleRequest 0 channel075]"
    by (simp add: run_three)
  note t = MatchChannels_ranked_top [OF insertionSort_spec ne,
      of setDefaults exampleUUID 0 exampleRequest emptyWorld]
  from t out have "\<forall>a b c. [channel075, channel055, channel090] = [a, b, c]
              \<and> normalizedScore a exampleRequest = 0.75 \<and> normalizedScore b exampleRequest = 0.55
              \<and> normalizedScore c exampleRequest = 0.90
              \<and> MinMatchingScore setDefaults = 0.6 \<and> 2 \<le> MaxMatchingResults setDefaults
              \<longrightarrow> map Channel [matchOf setDefaults exampleUUID 0 exampleRequest 2 channel090,
                     matchOf setDefaults exampleUUID 0 exampleRequest 0 channel075] = [c, a]
                \<and> map MatchScore [matchOf setDefaults exampleUUID 0 exampleRequest 2 channel090,
                     matchOf setDefaults exampleUUID 0 exampleRequest 0 channel075] = [0.90, 0.75]"
    by blast
  then have "map Channel [matchOf setDefaults exampleUUID 0 exampleRequest 2 channel090,
                   matchOf setDefaults exampleUUID 0 exampleRequest 0 channel075]
       = [channel090, channel075]
     \<and> map MatchScore [matchOf setDefaults exampleUUID 0 exampleRequest 2 channel090,
                      matchOf setDefaults exampleUUID 0 exampleRequest 0 channel075]
       = [0.90, 0.75]"
    using score_channel075 score_channel055 score_channel090 setDefaults_fields by simp
  then show ?thesis
    using insertionSort_spec out score_channel075 score_channel055 score_channel090
      setDefaults_fields by simp
qed

text \<open>
  With a maximum of 1 and two qualifying channels, the returned list does not contain the
  0.75 channel: it does not contain exactly the candidates that reach the minimum.
\<close>

lemma run_truncated:
  "MatchChannels insertionSort (setDefaults\<lparr>MaxMatchingResults := 1\<rparr>) exampleUUID 0
       (Inr [channel075, channel090]) exampleRequest emptyWorld =
     (Inr [matchOf (setDefaults\<lparr>MaxMatchingResults := 1\<rparr>) exampleUUID 0 exampleRequest 1 channel090],
      issueTokens (setDefaults\<lparr>MaxMatchingResults := 1\<rparr>) exampleUUID 0 exampleRequest
        [channel075, channel090] emptyWorld)"
  by (simp add: MatchChannels_eq matchOf_fields score_channel075 score_channel090
      setDefaults_fields emptyWorld_fields insertionSort_def Let_def
      del: issueTokens.simps)

theorem qualifying_candidate_cut_counterexample:
  "fst (MatchChannels insertionSort (setDefaults\<lparr>MaxMatchingResults := 1\<rparr>) exampleUUID 0
       (Inr [channel075, channel090]) exampleRequest emptyWorld)
     = Inr [matchOf (setDefaults\<lparr>MaxMatchingResults := 1\<rparr>) exampleUUID 0 exampleRequest 1 channel090]
   \<and> MinMatchingScore (setDefaults\<lparr>MaxMatchingResults := 1\<rparr>)
       \<le> MatchScore (matchOf (setDefaults\<lparr>MaxMatchingResults := 1\<rparr>) exampleUUID 0 exampleRequest 0 channel075)
   \<and> Channel (matchOf (setDefaults\<lparr>MaxMatchingResults := 1\<rparr>) exampleUUID 0 exampleRequest 1 channel090)
       \<noteq> channel075"
proof -
  have "channel090 \<noteq> channel075"
    by (simp add: channel075_def channel090_def exampleChannel_def)
  then show ?thesis
    by (simp add: run_truncated matchOf_fields score_channel075 setDefaults_fields)
qed

lemma sorted_scores_unique:
  fixes f :: "'a \<Rightarrow> real"
  assumes "sorted_wrt (\<lambda>a b. f a \<ge> f b) xs" and "sorted_wrt (\<lambda>a b. f a \<ge> f b) ys"
    and "mset xs = mset ys"
  shows "map f xs = map f ys"
proof -
  let ?g = "\<lambda>r. - f r"
  have sx: "sorted (map ?g xs)" and sy: "sorted (map ?g ys)"
    using assms(1,2) by (simp_all add: sorted_map)
  have "mset (map ?g xs) = mset (map ?g ys)" using assms(3) by (metis mset_map)
  then have "sort (map ?g ys) = map ?g xs" using sx by (rule properties_for_sort)
  moreover have "sort (map ?g ys) = map ?g ys" using sy by (rule sorted_sort_id)
  ultimately have "map ?g xs = map ?g ys" by simp
  then have "map uminus (map ?g xs) = map uminus (map ?g ys)" by simp
  then show ?thesis by (simp add: comp_def)
qed

lemma pdqsortPermutation_bound:
  "pdqsortPermutation R n = Some p \<Longrightarrow> \<forall>i \<in> set p. i < n"
  by (auto simp: pdqsortPermutation_def list_all_iff split: bind_splits if_splits)

lemma scorePermutation_bound: "\<forall>i \<in> set (scorePermutation scores). i < length scores"
  by (auto simp: scorePermutation_def dest: pdqsortPermutation_bound split: option.splits)

lemma sort_Slice_score:
  "sort_Slice (\<lambda>a b. f a > (f b :: real)) x = map (nth x) (scorePermutation (map f x))"
proof -
  have R: "(\<lambda>i j. i < length x \<and> j < length x \<and> f (x ! i) > f (x ! j))
      = (\<lambda>i j. i < length (map f x) \<and> j < length (map f x) \<and> map f x ! i > map f x ! j)"
    by (intro ext) auto
  show ?thesis
    unfolding sort_Slice_def scorePermutation_def R
    by (simp add: map_nth split: option.splits)
qed

lemma map_sort_Slice:
  "map g (sort_Slice (\<lambda>a b. f a > (f b :: real)) x) = map (nth (map g x)) (scorePermutation (map f x))"
proof -
  have "map g (map (nth x) (scorePermutation (map f x)))
      = map (nth (map g x)) (scorePermutation (map f x))"
    using scorePermutation_bound[of "map f x"] by simp
  then show ?thesis by (simp only: sort_Slice_score)
qed

lemma length_sort_Slice:
  "length (sort_Slice (\<lambda>a b. f a > (f b :: real)) x) = length (scorePermutation (map f x))"
  by (simp add: sort_Slice_score)

lemma qualifying_channels:
  "map Channel (filter (\<lambda>r. m \<le> MatchScore r) (candidates cfg newUUID now request n channels))
     = filter (\<lambda>c. m \<le> normalizedScore c request) channels"
  by (induction channels arbitrary: n) (auto simp: matchOf_fields)

lemma qualifying_scores:
  "map MatchScore (filter (\<lambda>r. m \<le> MatchScore r) (candidates cfg newUUID now request n channels))
     = map (\<lambda>c. normalizedScore c request) (filter (\<lambda>c. m \<le> normalizedScore c request) channels)"
  by (induction channels arbitrary: n) (auto simp: matchOf_fields)

lemma MatchChannels_sort_Slice_channels:
  assumes "channels \<noteq> []"
  shows "map_sum id (map Channel)
           (fst (MatchChannels sort_Slice cfg newUUID now (Inr channels) request w))
     = (let qual = filter (\<lambda>c. MinMatchingScore cfg \<le> normalizedScore c request) channels;
            order = scorePermutation (map (\<lambda>c. normalizedScore c request) qual)
        in if int (length order) > MaxMatchingResults cfg
           then (if MaxMatchingResults cfg < 0 then Inl SliceBoundsPanic
                 else Inr (take (nat (MaxMatchingResults cfg)) (map (nth qual) order)))
           else Inr (map (nth qual) order))"
  unfolding MatchChannels_eq[OF assms] Let_def fst_conv
  by (simp add: length_sort_Slice take_map[symmetric] map_sort_Slice qualifying_channels
      qualifying_scores del: map_map)

lemma perm13:
  "pdqsortPermutation (\<lambda>i j. i = 12 \<and> j < 12) 13 = Some [12, 6, 2, 3, 4, 5, 0, 7, 8, 9, 10, 11, 1]"
  by code_simp

lemma perm2: "pdqsortPermutation (\<lambda>i j. i = 1 \<and> j = 0) 2 = Some [1, 0]"
  by code_simp

lemma scorePermutation_thirteen:
  "scorePermutation [0.75, 0.75, 0.75, 0.75, 0.75, 0.75, 0.75, 0.75, 0.75, 0.75, 0.75, 0.75, 0.9]
     = [12, 6, 2, 3, 4, 5, 0, 7, 8, 9, 10, 11, 1]"
proof -
  let ?s = "[0.75, 0.75, 0.75, 0.75, 0.75, 0.75, 0.75, 0.75, 0.75, 0.75, 0.75, 0.75, 0.9 :: real]"
  have s: "?s = replicate 12 0.75 @ [0.9]" by (simp add: numeral_eq_Suc)
  have len: "length ?s = 13" by simp
  have nth: "?s ! i = (if i < 12 then 0.75 else 0.9)" if "i < 13" for i
    unfolding s using that by (auto simp: nth_append)
  have "(i < length ?s \<and> j < length ?s \<and> ?s ! i > ?s ! j) = (i = 12 \<and> j < 12)" for i j
  proof (cases "i < 13 \<and> j < 13")
    case False
    then show ?thesis unfolding len by auto
  next
    case True
    then show ?thesis unfolding len using nth[of i] nth[of j] by auto
  qed
  then have R: "(\<lambda>i j. i < length ?s \<and> j < length ?s \<and> ?s ! i > ?s ! j) = (\<lambda>i j. i = 12 \<and> j < 12)"
    by (intro ext)
  show ?thesis
    unfolding scorePermutation_def R unfolding len perm13 by simp
qed

lemma scorePermutation_two: "scorePermutation [0.75, 0.9] = [1, 0]"
proof -
  let ?s = "[0.75, 0.9 :: real]"
  have len: "length ?s = 2" by simp
  have nth: "?s ! i = (if i < 1 then 0.75 else 0.9)" if "i < 2" for i
    using that by (cases i) auto
  have "(i < length ?s \<and> j < length ?s \<and> ?s ! i > ?s ! j) = (i = 1 \<and> j = 0)" for i j
  proof (cases "i < 2 \<and> j < 2")
    case False
    then show ?thesis unfolding len by auto
  next
    case True
    then show ?thesis unfolding len using nth[of i] nth[of j] by auto
  qed
  then have R: "(\<lambda>i j. i < length ?s \<and> j < length ?s \<and> ?s ! i > ?s ! j) = (\<lambda>i j. i = 1 \<and> j = 0)"
    by (intro ext)
  show ?thesis
    unfolding scorePermutation_def R unfolding len perm2 by simp
qed


lemma qualifying_ids:
  "map ChannelID (filter (\<lambda>r. m \<le> MatchScore r) (candidates cfg newUUID now request n channels))
     = map ID (filter (\<lambda>c. m \<le> normalizedScore c request) channels)"
  by (induction channels arbitrary: n) (auto simp: matchOf_fields)

lemma MatchChannels_sort_Slice_ids:
  assumes "channels \<noteq> []"
  shows "map_sum id (map ChannelID)
           (fst (MatchChannels sort_Slice cfg newUUID now (Inr channels) request w))
     = (let qual = filter (\<lambda>c. MinMatchingScore cfg \<le> normalizedScore c request) channels;
            order = scorePermutation (map (\<lambda>c. normalizedScore c request) qual)
        in if int (length order) > MaxMatchingResults cfg
           then (if MaxMatchingResults cfg < 0 then Inl SliceBoundsPanic
                 else Inr (take (nat (MaxMatchingResults cfg)) (map (nth (map ID qual)) order)))
           else Inr (map (nth (map ID qual)) order))"
  unfolding MatchChannels_eq[OF assms] Let_def fst_conv
  by (simp add: length_sort_Slice take_map[symmetric] map_sort_Slice qualifying_ids
      qualifying_scores del: map_map)

lemma tiedChannel_fields:
  "normalizedScore (tiedChannel name) exampleRequest = 0.75" "ID (tiedChannel name) = name"
  by (simp_all add: tiedChannel_def normalizedScore_def weightedScores_eq exampleChannel_scores
      exampleChannel_availability exampleChannel_feeScore exampleRequest_fields
      feeSubScore_spec_def, simp add: exampleChannel_def)

lemma thirteenChannels_scores:
  "map (\<lambda>c. normalizedScore c exampleRequest) thirteenChannels
     = [0.75, 0.75, 0.75, 0.75, 0.75, 0.75, 0.75, 0.75, 0.75, 0.75, 0.75, 0.75, 0.9]"
  by (simp add: thirteenChannels_def tiedChannels_def tiedChannel_fields score_channel090)

lemma thirteenChannels_qualify:
  "filter (\<lambda>c. MinMatchingScore setDefaults \<le> normalizedScore c exampleRequest) thirteenChannels
     = thirteenChannels"
proof -
  have "\<forall>s \<in> set (map (\<lambda>c. normalizedScore c exampleRequest) thirteenChannels).
      MinMatchingScore setDefaults \<le> s"
    unfolding thirteenChannels_scores by (simp add: setDefaults_fields)
  then show ?thesis by (intro filter_True) simp
qed

lemma thirteenChannels_ids:
  "map ID thirteenChannels
     = [''T00'', ''T01'', ''T02'', ''T03'', ''T04'', ''T05'',
        ''T06'', ''T07'', ''T08'', ''T09'', ''T10'', ''T11'', ''C'']"
  by (simp add: thirteenChannels_def tiedChannels_def tiedChannel_fields channel090_def
      exampleChannel_def)

lemma thirteenChannels_ne: "thirteenChannels \<noteq> []"
  by (simp add: thirteenChannels_def)

lemma sortsTo_score:
  assumes "sortsTo srt (\<lambda>a b. MatchScore a > MatchScore b) xs"
  shows "mset (srt (\<lambda>a b. MatchScore a > MatchScore b) xs) = mset xs"
    and "sorted_wrt (\<lambda>a b. MatchScore a \<ge> MatchScore b) (srt (\<lambda>a b. MatchScore a > MatchScore b) xs)"
  using assms by (simp_all add: sortsTo_def not_less)

lemma sortSlice_spec_sortsTo:
  "sortSlice_spec srt \<Longrightarrow> sortsTo srt (\<lambda>a b. MatchScore a > MatchScore b) xs"
  using strict_weak_score unfolding sortSlice_spec_def sortsTo_def by blast

lemma MatchChannels_sort_Slice_same:
  "map_sum id (map Channel) (fst (MatchChannels sort_Slice cfg newUUID now fetched request w))
     = map_sum id (map Channel) (fst (MatchChannels sort_Slice cfg newUUID' now' fetched request w'))"
proof (cases fetched)
  case (Inl e)
  then show ?thesis by (simp add: MatchChannels_def)
next
  case (Inr channels)
  show ?thesis
  proof (cases "channels = []")
    case True
    then show ?thesis by (simp add: Inr MatchChannels_def)
  next
    case False
    show ?thesis unfolding Inr MatchChannels_sort_Slice_channels[OF False] ..
  qed
qed

lemma sort_Slice_two:
  assumes "MatchScore a = 0.75" and "MatchScore b = 0.9"
  shows "sort_Slice (\<lambda>a b. MatchScore a > MatchScore b) [a, b] = [b, a]"
proof -
  have "map MatchScore [a, b] = [0.75, 0.9]" by (simp only: list.map assms)
  then show ?thesis
    unfolding sort_Slice_score by (simp only: scorePermutation_two) simp
qed

text \<open>
  Claim C3, as amended. \<^verbatim>\<open>MatchChannels\<close> sorts with \<^verbatim>\<open>sort.Slice\<close>, which is not a
  stable sort. For every sort that returns the qualifying candidates as a permutation
  sorted by descending score, the returned list is ordered by non-increasing match score,
  and the sequence of returned scores and the store written are the same; when no two
  qualifying results have the same score, the returned list itself is the same. Two
  results of equal score need not keep their fetch order. The order is deterministic all
  the same: with the algorithm of \<^verbatim>\<open>sort.Slice\<close>, calls with the same configuration,
  channels and request return the channels in the same order, whatever the identifiers
  drawn, the clock and the store.
\<close>

theorem MatchChannels_order_up_to_ties:
  assumes "\<forall>channels. fetched = Inr channels \<longrightarrow>
             sortsTo srt1 (\<lambda>a b. MatchScore a > MatchScore b)
               (filter (\<lambda>r. MinMatchingScore cfg \<le> MatchScore r)
                 (candidates cfg newUUID now request (drawn w) channels))"
    and "\<forall>channels. fetched = Inr channels \<longrightarrow>
             sortsTo srt2 (\<lambda>a b. MatchScore a > MatchScore b)
               (filter (\<lambda>r. MinMatchingScore cfg \<le> MatchScore r)
                 (candidates cfg newUUID now request (drawn w) channels))"
  shows "snd (MatchChannels srt1 cfg newUUID now fetched request w)
           = snd (MatchChannels srt2 cfg newUUID now fetched request w)
    \<and> map_sum id (map MatchScore) (fst (MatchChannels srt1 cfg newUUID now fetched request w))
        = map_sum id (map MatchScore) (fst (MatchChannels srt2 cfg newUUID now fetched request w))
    \<and> (\<forall>results. fst (MatchChannels srt1 cfg newUUID now fetched request w) = Inr results
          \<longrightarrow> sorted_wrt (\<lambda>a b. MatchScore a \<ge> MatchScore b) results)
    \<and> (\<forall>channels. fetched = Inr channels
          \<and> distinct (map MatchScore (filter (\<lambda>r. MinMatchingScore cfg \<le> MatchScore r)
                (candidates cfg newUUID now request (drawn w) channels)))
          \<longrightarrow> fst (MatchChannels srt1 cfg newUUID now fetched request w)
              = fst (MatchChannels srt2 cfg newUUID now fetched request w))
    \<and> (\<forall>newUUID' now' w'.
          map_sum id (map Channel)
              (fst (MatchChannels sort_Slice cfg newUUID now fetched request w))
            = map_sum id (map Channel)
                (fst (MatchChannels sort_Slice cfg newUUID' now' fetched request w')))"
proof (cases "\<exists>channels. fetched = Inr channels \<and> channels \<noteq> []")
  case False
  then have "MatchChannels srt1 cfg newUUID now fetched request w
      = MatchChannels srt2 cfg newUUID now fetched request w"
    and "\<forall>results. fst (MatchChannels srt1 cfg newUUID now fetched request w) \<noteq> Inr results"
    by (cases fetched; auto simp: MatchChannels_def)+
  then show ?thesis using MatchChannels_sort_Slice_same by metis
next
  case True
  then obtain channels where f: "fetched = Inr channels" and ne: "channels \<noteq> []" by blast
  let ?n = "nat (MaxMatchingResults cfg)"
  let ?qual = "filter (\<lambda>r. MinMatchingScore cfg \<le> MatchScore r)
                (candidates cfg newUUID now request (drawn w) channels)"
  let ?rs1 = "srt1 (\<lambda>a b. MatchScore a > MatchScore b) ?qual"
  let ?rs2 = "srt2 (\<lambda>a b. MatchScore a > MatchScore b) ?qual"
  let ?out = "\<lambda>rs. if int (length rs) > MaxMatchingResults cfg
         then (if MaxMatchingResults cfg < 0 then Inl SliceBoundsPanic
               else Inr (take ?n rs))
         else Inr rs"
  have m1: "MatchChannels srt1 cfg newUUID now fetched request w
      = (?out ?rs1, issueTokens cfg newUUID now request channels w)"
    and m2: "MatchChannels srt2 cfg newUUID now fetched request w
      = (?out ?rs2, issueTokens cfg newUUID now request channels w)"
    unfolding f MatchChannels_eq[OF ne] Let_def by simp_all
  have h1: "sortsTo srt1 (\<lambda>a b. MatchScore a > MatchScore b) ?qual"
    and h2: "sortsTo srt2 (\<lambda>a b. MatchScore a > MatchScore b) ?qual"
    using assms f by blast+
  have ms1: "mset ?rs1 = mset ?qual" and s1: "sorted_wrt (\<lambda>a b. MatchScore a \<ge> MatchScore b) ?rs1"
    using sortsTo_score[OF h1] by simp_all
  have ms2: "mset ?rs2 = mset ?qual" and s2: "sorted_wrt (\<lambda>a b. MatchScore a \<ge> MatchScore b) ?rs2"
    using sortsTo_score[OF h2] by simp_all
  have len: "length ?rs1 = length ?rs2" using ms1 ms2 by (metis size_mset)
  have scores: "map MatchScore ?rs1 = map MatchScore ?rs2"
    using s1 s2 by (rule sorted_scores_unique) (simp add: ms1 ms2)
  have world: "snd (MatchChannels srt1 cfg newUUID now fetched request w)
           = snd (MatchChannels srt2 cfg newUUID now fetched request w)"
    by (simp add: m1 m2)
  have "map MatchScore (take ?n ?rs1) = map MatchScore (take ?n ?rs2)"
    using scores by (simp add: take_map[symmetric])
  then have seq: "map_sum id (map MatchScore) (?out ?rs1) = map_sum id (map MatchScore) (?out ?rs2)"
    using scores len by simp
  have sorted: "sorted_wrt (\<lambda>a b. MatchScore a \<ge> MatchScore b) results"
    if "?out ?rs1 = Inr results" for results
  proof -
    have "results = ?rs1 \<or> results = take ?n ?rs1" using that by (auto split: if_splits)
    then show ?thesis using s1 sorted_wrt_take[OF s1, of ?n] by auto
  qed
  have same: "?out ?rs1 = ?out ?rs2" if d: "distinct (map MatchScore ?qual)"
  proof -
    have "inj_on MatchScore (set ?qual)" using d by (simp add: distinct_map)
    moreover have "set ?rs1 = set ?qual" "set ?rs2 = set ?qual"
      using ms1 ms2 by (metis set_mset_mset)+
    ultimately have "inj_on MatchScore (set ?rs1 \<union> set ?rs2)" by simp
    then have "?rs1 = ?rs2" using scores by (simp add: inj_on_map_eq_map)
    then show ?thesis by simp
  qed
  have first: "snd (MatchChannels srt1 cfg newUUID now fetched request w)
           = snd (MatchChannels srt2 cfg newUUID now fetched request w)
    \<and> map_sum id (map MatchScore) (fst (MatchChannels srt1 cfg newUUID now fetched request w))
        = map_sum id (map MatchScore) (fst (MatchChannels srt2 cfg newUUID now fetched request w))
    \<and> (\<forall>results. fst (MatchChannels srt1 cfg newUUID now fetched request w) = Inr results
          \<longrightarrow> sorted_wrt (\<lambda>a b. MatchScore a \<ge> MatchScore b) results)
    \<and> (\<forall>channels. fetched = Inr channels
          \<and> distinct (map MatchScore (filter (\<lambda>r. MinMatchingScore cfg \<le> MatchScore r)
                (candidates cfg newUUID now request (drawn w) channels)))
          \<longrightarrow> fst (MatchChannels srt1 cfg newUUID now fetched request w)
              = fst (MatchChannels srt2 cfg newUUID now fetched request w))"
    unfolding m1 m2 fst_conv snd_conv using seq sorted same f by auto
  show ?thesis using first MatchChannels_sort_Slice_same by blast
qed

text \<open>
  The three channels scored 0.75, 0.55 and 0.90, sorted by the algorithm of
  \<^verbatim>\<open>sort.Slice\<close> and by the insertion sort, and a second call at another time, with
  other identifiers and another store.
\<close>

theorem MatchChannels_order_up_to_ties_witness:
  "sortsTo sort_Slice (\<lambda>a b. MatchScore a > MatchScore b)
      (filter (\<lambda>r. MinMatchingScore setDefaults \<le> MatchScore r)
        (candidates setDefaults exampleUUID 0 exampleRequest (drawn emptyWorld)
           [channel075, channel055, channel090]))
   \<and> sortsTo insertionSort (\<lambda>a b. MatchScore a > MatchScore b)
      (filter (\<lambda>r. MinMatchingScore setDefaults \<le> MatchScore r)
        (candidates setDefaults exampleUUID 0 exampleRequest (drawn emptyWorld)
           [channel075, channel055, channel090]))
   \<and> distinct (map MatchScore (filter (\<lambda>r. MinMatchingScore setDefaults \<le> MatchScore r)
        (candidates setDefaults exampleUUID 0 exampleRequest (drawn emptyWorld)
           [channel075, channel055, channel090])))
   \<and> fst (MatchChannels sort_Slice setDefaults exampleUUID 0
        (Inr [channel075, channel055, channel090]) exampleRequest emptyWorld)
       = Inr [matchOf setDefaults exampleUUID 0 exampleRequest 2 channel090,
              matchOf setDefaults exampleUUID 0 exampleRequest 0 channel075]
   \<and> sorted_wrt (\<lambda>a b. MatchScore a \<ge> MatchScore b)
        [matchOf setDefaults exampleUUID 0 exampleRequest 2 channel090,
         matchOf setDefaults exampleUUID 0 exampleRequest 0 channel075]
   \<and> map_sum id (map Channel)
        (fst (MatchChannels sort_Slice setDefaults showNat 1700000000
           (Inr [channel075, channel055, channel090]) exampleRequest
           \<lparr>redis = exampleCounters, drawn = 7\<rparr>))
       = Inr [channel090, channel075]"
proof -
  let ?qual = "filter (\<lambda>r. MinMatchingScore setDefaults \<le> MatchScore r)
        (candidates setDefaults exampleUUID 0 exampleRequest (drawn emptyWorld)
           [channel075, channel055, channel090])"
  have q: "?qual = [matchOf setDefaults exampleUUID 0 exampleRequest 0 channel075,
                    matchOf setDefaults exampleUUID 0 exampleRequest 2 channel090]"
    by (simp add: matchOf_fields score_channel075 score_channel055 score_channel090
        setDefaults_fields emptyWorld_fields flip: numeral_2_eq_2)
  have srt: "sort_Slice (\<lambda>a b. MatchScore a > MatchScore b) ?qual
      = [matchOf setDefaults exampleUUID 0 exampleRequest 2 channel090,
         matchOf setDefaults exampleUUID 0 exampleRequest 0 channel075]"
    unfolding q by (rule sort_Slice_two) (simp_all add: matchOf_fields score_channel075 score_channel090)
  have h1: "sortsTo sort_Slice (\<lambda>a b. MatchScore a > MatchScore b) ?qual"
    unfolding sortsTo_def srt unfolding q
    by (simp add: matchOf_fields score_channel075 score_channel090)
  have h2: "sortsTo insertionSort (\<lambda>a b. MatchScore a > MatchScore b) ?qual"
    using insertionSort_spec by (rule sortSlice_spec_sortsTo)
  have d: "distinct (map MatchScore ?qual)"
    unfolding q by (simp add: matchOf_fields score_channel075 score_channel090)
  have a1: "\<forall>channels. Inr [channel075, channel055, channel090] = (Inr channels :: string + Channel list) \<longrightarrow>
      sortsTo sort_Slice (\<lambda>a b. MatchScore a > MatchScore b)
        (filter (\<lambda>r. MinMatchingScore setDefaults \<le> MatchScore r)
          (candidates setDefaults exampleUUID 0 exampleRequest (drawn emptyWorld) channels))"
    using h1 by auto
  have a2: "\<forall>channels. Inr [channel075, channel055, channel090] = (Inr channels :: string + Channel list) \<longrightarrow>
      sortsTo insertionSort (\<lambda>a b. MatchScore a > MatchScore b)
        (filter (\<lambda>r. MinMatchingScore setDefaults \<le> MatchScore r)
          (candidates setDefaults exampleUUID 0 exampleRequest (drawn emptyWorld) channels))"
    using h2 by auto
  note t = MatchChannels_order_up_to_ties [OF a1 a2]
  from t d have e: "fst (MatchChannels sort_Slice setDefaults exampleUUID 0
        (Inr [channel075, channel055, channel090]) exampleRequest emptyWorld)
      = fst (MatchChannels insertionSort setDefaults exampleUUID 0
        (Inr [channel075, channel055, channel090]) exampleRequest emptyWorld)"
    by blast
  then have r: "fst (MatchChannels sort_Slice setDefaults exampleUUID 0
        (Inr [channel075, channel055, channel090]) exampleRequest emptyWorld)
       = Inr [matchOf setDefaults exampleUUID 0 exampleRequest 2 channel090,
              matchOf setDefaults exampleUUID 0 exampleRequest 0 channel075]"
    by (simp add: run_three)
  from t r have s: "sorted_wrt (\<lambda>a b. MatchScore a \<ge> MatchScore b)
        [matchOf setDefaults exampleUUID 0 exampleRequest 2 channel090,
         matchOf setDefaults exampleUUID 0 exampleRequest 0 channel075]"
    by blast
  from t have "map_sum id (map Channel)
        (fst (MatchChannels sort_Slice setDefaults exampleUUID 0
           (Inr [channel075, channel055, channel090]) exampleRequest emptyWorld))
     = map_sum id (map Channel)
        (fst (MatchChannels sort_Slice setDefaults showNat 1700000000
           (Inr [channel075, channel055, channel090]) exampleRequest
           \<lparr>redis = exampleCounters, drawn = 7\<rparr>))"
    by blast
  then have c: "map_sum id (map Channel)
        (fst (MatchChannels sort_Slice setDefaults showNat 1700000000
           (Inr [channel075, channel055, channel090]) exampleRequest
           \<lparr>redis = exampleCounters, drawn = 7\<rparr>))
       = Inr [channel090, channel075]"
    unfolding r by (simp add: matchOf_fields)
  show ?thesis using h1 h2 d r s c by (simp only: simp_thms)
qed

text \<open>
  The claim as stated fails from thirteen qualifying candidates on, where
  \<^verbatim>\<open>pdqsort_func\<close> partitions instead of sorting by insertion. Twelve channels of equal
  score are fetched before one that scores higher: the pivot T06 is returned before
  T02 to T05 and T00, which were fetched before it, and T01 is cut by the truncation
  to ten results while T09 stays.
\<close>

theorem tied_results_reordered_counterexample:
  "map ID thirteenChannels
     = [''T00'', ''T01'', ''T02'', ''T03'', ''T04'', ''T05'',
        ''T06'', ''T07'', ''T08'', ''T09'', ''T10'', ''T11'', ''C'']
   \<and> map (\<lambda>c. normalizedScore c exampleRequest) thirteenChannels
     = [0.75, 0.75, 0.75, 0.75, 0.75, 0.75, 0.75, 0.75, 0.75, 0.75, 0.75, 0.75, 0.9]
   \<and> pdqsortPermutation (\<lambda>i j. i = 12 \<and> j < 12) 13
     = Some [12, 6, 2, 3, 4, 5, 0, 7, 8, 9, 10, 11, 1]
   \<and> map_sum id (map ChannelID)
        (fst (MatchChannels sort_Slice setDefaults exampleUUID 0 (Inr thirteenChannels)
                exampleRequest emptyWorld))
     = Inr [''C'', ''T06'', ''T02'', ''T03'', ''T04'', ''T05'', ''T00'', ''T07'', ''T08'', ''T09'']"
proof -
  have "map_sum id (map ChannelID)
        (fst (MatchChannels sort_Slice setDefaults exampleUUID 0 (Inr thirteenChannels)
                exampleRequest emptyWorld))
     = Inr [''C'', ''T06'', ''T02'', ''T03'', ''T04'', ''T05'', ''T00'', ''T07'', ''T08'', ''T09'']"
    unfolding MatchChannels_sort_Slice_ids[OF thirteenChannels_ne] thirteenChannels_qualify
      thirteenChannels_scores scorePermutation_thirteen thirteenChannels_ids Let_def
    by (simp add: setDefaults_fields)
  then show ?thesis
    using thirteenChannels_ids thirteenChannels_scores perm13 by (simp only:)
qed

lemma in_results_candidate:
  assumes "sortSlice_spec srt" and "channels \<noteq> []"
    and "MatchChannels srt cfg newUUID now (Inr channels) request w = (Inr results, w')"
    and "r \<in> set results"
  shows "\<exists>i < length channels. r = matchOf cfg newUUID now request (drawn w + i) (channels ! i)"
proof -
  let ?qual = "filter (\<lambda>r. MinMatchingScore cfg \<le> MatchScore r)
                (candidates cfg newUUID now request (drawn w) channels)"
  let ?rs = "srt (\<lambda>a b. MatchScore a > MatchScore b) ?qual"
  have "results = take (nat (MaxMatchingResults cfg)) ?rs"
    using MatchChannels_results(2)[OF assms(2,3)] .
  then have "r \<in> set ?rs" using assms(4) by (auto dest: in_set_takeD)
  then have "r \<in> set ?qual" using sortSlice_score(1)[OF assms(1)] by (metis set_mset_mset)
  then have "r \<in> set (candidates cfg newUUID now request (drawn w) channels)" by simp
  then show ?thesis by (rule in_candidates)
qed

text \<open>
  Claim C9, as amended. Within one call of \<^verbatim>\<open>MatchChannels\<close> a redirect token is
  generated and written to the store for every scored candidate, one per eligible channel,
  before the minimum-score filter and the truncation: the store gains exactly the keys of
  these tokens. With distinct identifiers each token's entry holds the descriptor of its
  candidate, so every returned result carries a descriptor that is stored under its token.
  The entry expires as \<^verbatim>\<open>Set\<close> is given the duration
  \<^verbatim>\<open>time.Duration(RedirectExpiration) * time.Second\<close>: for a redirect expiration that is
  positive and at most 9223372036 seconds, that number of seconds after the call.
\<close>

theorem MatchChannels_token_per_candidate:
  assumes "channels \<noteq> []"
    and "MatchChannels srt cfg newUUID now (Inr channels) request w = (out, w')"
  shows "drawn w' = drawn w + length channels
    \<and> dom (redis w') =
        dom (redis w) \<union> (\<lambda>i. redirectKey (newUUID (drawn w + i))) ` {..<length channels}
    \<and> (inj_on newUUID {drawn w ..< drawn w + length channels} \<longrightarrow>
         (\<forall>i < length channels.
            redis w' (redirectKey (newUUID (drawn w + i))) =
              Some (RedirectData
                      (RedirectInfo (candidates cfg newUUID now request (drawn w) channels ! i))
                      request now,
                    setExpiry now (secondsDuration (RedirectExpiration cfg)))))
    \<and> (inj_on newUUID {drawn w ..< drawn w + length channels} \<and> sortSlice_spec srt \<longrightarrow>
         (\<forall>results. out = Inr results \<longrightarrow>
            (\<forall>r \<in> set results. \<exists>t.
               tokenOf (RedirectInfo r) = Some t
             \<and> redis w' (redirectKey t) =
                 Some (RedirectData (RedirectInfo r) request now,
                       setExpiry now (secondsDuration (RedirectExpiration cfg))))))
    \<and> (0 < RedirectExpiration cfg \<and> RedirectExpiration cfg \<le> 9223372036 \<longrightarrow>
         setExpiry now (secondsDuration (RedirectExpiration cfg))
           = Some ((now + RedirectExpiration cfg) * 1000))"
proof -
  let ?e = "setExpiry now (secondsDuration (RedirectExpiration cfg))"
  have expiry: "?e = Some ((now + RedirectExpiration cfg) * 1000)"
    if "0 < RedirectExpiration cfg \<and> RedirectExpiration cfg \<le> 9223372036"
    using that by (simp add: setExpiry_seconds)
  have w': "w' = issueTokens cfg newUUID now request channels w"
    using assms(2) unfolding MatchChannels_eq[OF assms(1)] by simp
  have drawn: "drawn w' = drawn w + length channels"
    unfolding w' by (rule drawn_issueTokens)
  have dom: "dom (redis w') =
        dom (redis w) \<union> (\<lambda>i. redirectKey (newUUID (drawn w + i))) ` {..<length channels}"
    unfolding w' by (rule dom_issueTokens)
  have stored: "redis w' (redirectKey (newUUID (drawn w + i))) =
      Some (RedirectData (RedirectInfo (candidates cfg newUUID now request (drawn w) channels ! i))
              request now, ?e)"
    if "inj_on newUUID {drawn w ..< drawn w + length channels}" "i < length channels" for i
    unfolding w' using redis_issueTokens_token[OF that] that(2) by (simp add: nth_candidates)
  have carried: "\<exists>t. tokenOf (RedirectInfo r) = Some t
             \<and> redis w' (redirectKey t) = Some (RedirectData (RedirectInfo r) request now, ?e)"
    if inj: "inj_on newUUID {drawn w ..< drawn w + length channels}" and spec: "sortSlice_spec srt"
      and out: "out = Inr results" and r: "r \<in> set results" for results r
  proof -
    from in_results_candidate[OF spec assms(1) assms(2)[unfolded out] r]
    obtain i where i: "i < length channels"
      "r = matchOf cfg newUUID now request (drawn w + i) (channels ! i)" by blast
    have "tokenOf (RedirectInfo r) = Some (newUUID (drawn w + i))"
      unfolding i(2) by (rule matchOf_fields)
    moreover have "redis w' (redirectKey (newUUID (drawn w + i)))
        = Some (RedirectData (RedirectInfo r) request now, ?e)"
      using stored[OF inj i(1)] i by (simp add: nth_candidates)
    ultimately show ?thesis by blast
  qed
  show ?thesis using drawn dom stored carried expiry by blast
qed

lemma exampleUUID_values:
  "exampleUUID 0 = ''token-0''" "exampleUUID 1 = ''token-1''" "exampleUUID 2 = ''token-2''"
  "exampleUUID (Suc 0) = ''token-1''"
  by (simp_all add: exampleUUID_def showNat.simps digit_def)

lemma exampleUUID_inj: "inj_on exampleUUID {0 ..< 0 + length [channel075, channel055, channel090]}"
proof -
  have "{0 ..< 0 + length [channel075, channel055, channel090]} = {0, 1, 2::nat}" by auto
  then show ?thesis by (simp add: exampleUUID_values)
qed

theorem MatchChannels_token_per_candidate_witness:
  "[channel075, channel055, channel090] \<noteq> []
   \<and> inj_on exampleUUID {drawn emptyWorld ..< drawn emptyWorld + length [channel075, channel055, channel090]}
   \<and> sortSlice_spec insertionSort
   \<and> fst (MatchChannels insertionSort setDefaults exampleUUID 0
        (Inr [channel075, channel055, channel090]) exampleRequest emptyWorld)
       = Inr [matchOf setDefaults exampleUUID 0 exampleRequest 2 channel090,
              matchOf setDefaults exampleUUID 0 exampleRequest 0 channel075]
   \<and> drawn (snd (MatchChannels insertionSort setDefaults exampleUUID 0
        (Inr [channel075, channel055, channel090]) exampleRequest emptyWorld)) = 3
   \<and> dom (redis (snd (MatchChannels insertionSort setDefaults exampleUUID 0
        (Inr [channel075, channel055, channel090]) exampleRequest emptyWorld)))
       = {redirectKey ''token-0'', redirectKey ''token-1'', redirectKey ''token-2''}
   \<and> redis (snd (MatchChannels insertionSort setDefaults exampleUUID 0
        (Inr [channel075, channel055, channel090]) exampleRequest emptyWorld))
        (redirectKey ''token-1'')
       = Some (RedirectData (RedirectInfo (matchOf setDefaults exampleUUID 0 exampleRequest 1 channel055))
                exampleRequest 0, Some 3600000)
   \<and> 0 < RedirectExpiration setDefaults \<and> RedirectExpiration setDefaults \<le> 9223372036
   \<and> setExpiry 0 (secondsDuration (RedirectExpiration setDefaults)) = Some 3600000"
proof -
  have ne: "[channel075, channel055, channel090] \<noteq> []" by simp
  have inj: "inj_on exampleUUID
      {drawn emptyWorld ..< drawn emptyWorld + length [channel075, channel055, channel090]}"
    using exampleUUID_inj by (simp add: emptyWorld_fields)
  have img: "(\<lambda>i. redirectKey (exampleUUID (drawn emptyWorld + i)))
        ` {..<length [channel075, channel055, channel090]} =
      {redirectKey ''token-0'', redirectKey ''token-1'', redirectKey ''token-2''}"
  proof -
    have "{..<length [channel075, channel055, channel090]} = {0, 1, 2}" by auto
    then show ?thesis by (simp add: exampleUUID_values emptyWorld_fields)
  qed
  note t = MatchChannels_token_per_candidate [OF ne run_three]
  have d: "drawn (issueTokens setDefaults exampleUUID 0 exampleRequest
      [channel075, channel055, channel090] emptyWorld) = 3"
    using t by (simp add: emptyWorld_fields del: issueTokens.simps)
  have dm: "dom (redis (issueTokens setDefaults exampleUUID 0 exampleRequest
      [channel075, channel055, channel090] emptyWorld))
       = {redirectKey ''token-0'', redirectKey ''token-1'', redirectKey ''token-2''}"
  proof -
    from t have "dom (redis (issueTokens setDefaults exampleUUID 0 exampleRequest
      [channel075, channel055, channel090] emptyWorld)) =
        dom (redis emptyWorld) \<union> (\<lambda>i. redirectKey (exampleUUID (drawn emptyWorld + i)))
          ` {..<length [channel075, channel055, channel090]}"
      by blast
    then show ?thesis unfolding img by (simp add: emptyWorld_fields)
  qed
  from t inj have "\<forall>i < length [channel075, channel055, channel090].
      redis (issueTokens setDefaults exampleUUID 0 exampleRequest
        [channel075, channel055, channel090] emptyWorld) (redirectKey (exampleUUID (drawn emptyWorld + i)))
       = Some (RedirectData (RedirectInfo (candidates setDefaults exampleUUID 0 exampleRequest
                  (drawn emptyWorld) [channel075, channel055, channel090] ! i))
                exampleRequest 0,
               setExpiry 0 (secondsDuration (RedirectExpiration setDefaults)))"
    by blast
  moreover have "1 < length [channel075, channel055, channel090]" by simp
  ultimately have "redis (issueTokens setDefaults exampleUUID 0 exampleRequest
        [channel075, channel055, channel090] emptyWorld) (redirectKey (exampleUUID (drawn emptyWorld + 1)))
       = Some (RedirectData (RedirectInfo (candidates setDefaults exampleUUID 0 exampleRequest
                  (drawn emptyWorld) [channel075, channel055, channel090] ! 1))
                exampleRequest 0,
               setExpiry 0 (secondsDuration (RedirectExpiration setDefaults)))"
    by blast
  then have st: "redis (issueTokens setDefaults exampleUUID 0 exampleRequest
      [channel075, channel055, channel090] emptyWorld) (redirectKey ''token-1'')
       = Some (RedirectData (RedirectInfo (matchOf setDefaults exampleUUID 0 exampleRequest 1 channel055))
                exampleRequest 0, Some 3600000)"
    by (simp add: emptyWorld_fields exampleUUID_values setDefaults_expiry del: issueTokens.simps)
  have b: "0 < RedirectExpiration setDefaults \<and> RedirectExpiration setDefaults \<le> 9223372036"
    by (simp add: setDefaults_fields)
  from t b have e: "setExpiry 0 (secondsDuration (RedirectExpiration setDefaults))
      = Some ((0 + RedirectExpiration setDefaults) * 1000)"
    by blast
  show ?thesis
    using ne inj insertionSort_spec d dm st b e
    by (simp add: run_three setDefaults_fields del: issueTokens.simps)
qed

text \<open>
  A single channel that scores 0.55 is dropped by the filter, and its token is in the
  store after the call.
\<close>

theorem token_for_dropped_candidate_counterexample:
  "fst (MatchChannels insertionSort setDefaults exampleUUID 0 (Inr [channel055]) exampleRequest emptyWorld)
     = Inr []
   \<and> redis (snd (MatchChannels insertionSort setDefaults exampleUUID 0 (Inr [channel055])
              exampleRequest emptyWorld)) (redirectKey ''token-0'')
       = Some (RedirectData (RedirectInfo (matchOf setDefaults exampleUUID 0 exampleRequest 0 channel055))
                exampleRequest 0, Some 3600000)
   \<and> redis emptyWorld (redirectKey ''token-0'') = None"
  by (simp add: run_channel055 calculateChannelMatch_eq emptyWorld_fields exampleUUID_values
      setDefaults_expiry)

section \<open>The attribution path\<close>

lemma list_range_all: "list_range xs 0 (- 1) = xs"
  by (cases xs) (auto simp: list_range_def Let_def)

lemma list_range_cap: "list_range xs 0 9 = take 10 xs"
proof (cases "length xs \<le> 10")
  case True
  then show ?thesis by (cases xs) (auto simp: list_range_def Let_def min_def)
next
  case False
  then have "min 9 (int (length xs) - 1) = 9" by simp
  then show ?thesis using False by (simp add: list_range_def Let_def)
qed

lemma attributionPathKey_eq [simp]:
  "attributionPathKey a = attributionPathKey b \<longleftrightarrow> a = b"
  by (simp add: attributionPathKey_def)

lemma getUserAttributionPath_cases:
  "getUserAttributionPath r now u =
     (case redis_lookup r now (attributionPathKey u) of
        Some (RList xs, e) \<Rightarrow> xs
      | _ \<Rightarrow> [])"
  by (auto simp: getUserAttributionPath_def redis_LRange_def list_range_all Let_def
      split: option.splits prod.splits redis_value.splits)

lemma redis_lookup_update:
  "redis_lookup (r(k \<mapsto> (v, e))) now k =
     (case e of None \<Rightarrow> Some (v, None)
      | Some t \<Rightarrow> if now * 1000 < t then Some (v, Some t) else None)"
  by (simp add: redis_lookup_def split: option.splits)

lemma redis_lookup_live:
  "redis_lookup r now k = Some (v, e) \<Longrightarrow> redis_lookup (r(k \<mapsto> (v', e))) now k = Some (v', e)"
  by (auto simp: redis_lookup_def split: option.splits prod.splits if_splits)

lemma redis_LPush_absent:
  "redis_lookup r now k = None \<Longrightarrow> redis_LPush r now k x = r(k \<mapsto> (RList [x], None))"
  by (simp add: redis_LPush_def)

lemma redis_LPush_list:
  "redis_lookup r now k = Some (RList xs, e) \<Longrightarrow>
   redis_LPush r now k x = r(k \<mapsto> (RList (x # xs), e))"
  by (simp add: redis_LPush_def)

lemma redis_LPush_other:
  "redis_lookup r now k = Some (v, e) \<Longrightarrow> \<forall>xs. v \<noteq> RList xs \<Longrightarrow> redis_LPush r now k x = r"
  by (cases v) (simp_all add: redis_LPush_def)

lemma redis_LTrim_list:
  "redis_lookup r now k = Some (RList xs, e) \<Longrightarrow> xs \<noteq> [] \<Longrightarrow>
   redis_LTrim r now k 0 9 = r(k \<mapsto> (RList (take 10 xs), e))"
  by (simp add: redis_LTrim_def list_range_cap Let_def)

lemma redis_LTrim_other:
  "redis_lookup r now k = Some (v, e) \<Longrightarrow> \<forall>xs. v \<noteq> RList xs \<Longrightarrow> redis_LTrim r now k a b = r"
  by (cases v) (simp_all add: redis_LTrim_def)

lemma redis_Expire_present:
  "redis_lookup r now k = Some (v, e) \<Longrightarrow>
   redis_Expire r now k expiration =
     (if formatSec expiration \<le> 0 then r(k := None)
      else r(k \<mapsto> (v, Some ((now + formatSec expiration) * 1000))))"
  by (simp add: redis_Expire_def Let_def)

text \<open>The entry of the user's key after one update, by what the key held before.\<close>

lemma updateUserAttributionPath_key:
  "updateUserAttributionPath cfg now event r (attributionPathKey (EvUserID event)) =
     (if formatSec (secondsDuration (AttributionWindow cfg)) \<le> 0 then None
      else case redis_lookup r now (attributionPathKey (EvUserID event)) of
             None \<Rightarrow>
               Some (RList [touchpointOf event],
                     Some ((now + formatSec (secondsDuration (AttributionWindow cfg))) * 1000))
           | Some (RList xs, e) \<Rightarrow>
               Some (RList (take 10 (touchpointOf event # xs)),
                     Some ((now + formatSec (secondsDuration (AttributionWindow cfg))) * 1000))
           | Some (v, e) \<Rightarrow>
               Some (v, Some ((now + formatSec (secondsDuration (AttributionWindow cfg))) * 1000)))"
proof -
  let ?k = "attributionPathKey (EvUserID event)" and ?x = "touchpointOf event"
  let ?ttl = "secondsDuration (AttributionWindow cfg)"
  have upd: "updateUserAttributionPath cfg now event r =
      redis_Expire (redis_LTrim (redis_LPush r now ?k ?x) now ?k 0 9) now ?k ?ttl"
    by (simp add: updateUserAttributionPath_def Let_def)
  show ?thesis
  proof (cases "redis_lookup r now ?k")
    case None
    let ?r1 = "r(?k \<mapsto> (RList [?x], None))"
    have p: "redis_LPush r now ?k ?x = ?r1" using None by (rule redis_LPush_absent)
    have l1: "redis_lookup ?r1 now ?k = Some (RList [?x], None)"
      by (simp add: redis_lookup_update)
    have t: "redis_LTrim ?r1 now ?k 0 9 = ?r1"
      using redis_LTrim_list[OF l1] by simp
    show ?thesis
      unfolding upd p t redis_Expire_present[OF l1] using None by simp
  next
    case (Some ve)
    obtain v e where ve: "ve = (v, e)" by (cases ve)
    show ?thesis
    proof (cases "\<exists>xs. v = RList xs")
      case True
      then obtain xs where v: "v = RList xs" by blast
      have look: "redis_lookup r now ?k = Some (RList xs, e)" using Some ve v by simp
      let ?r1 = "r(?k \<mapsto> (RList (?x # xs), e))"
      have p: "redis_LPush r now ?k ?x = ?r1" using look by (rule redis_LPush_list)
      have l1: "redis_lookup ?r1 now ?k = Some (RList (?x # xs), e)"
        using look by (rule redis_lookup_live)
      let ?r2 = "r(?k \<mapsto> (RList (take 10 (?x # xs)), e))"
      have t: "redis_LTrim ?r1 now ?k 0 9 = ?r2"
        using redis_LTrim_list[OF l1] by simp
      have l2: "redis_lookup ?r2 now ?k = Some (RList (take 10 (?x # xs)), e)"
        using look by (rule redis_lookup_live)
      show ?thesis
        unfolding upd p t redis_Expire_present[OF l2] using look by simp
    next
      case False
      then have nl: "\<forall>xs. v \<noteq> RList xs" by blast
      have look: "redis_lookup r now ?k = Some (v, e)" using Some ve by simp
      have p: "redis_LPush r now ?k ?x = r" using look nl by (rule redis_LPush_other)
      have t: "redis_LTrim r now ?k 0 9 = r" using look nl by (rule redis_LTrim_other)
      show ?thesis
        unfolding upd p t redis_Expire_present[OF look] using look nl by (cases v) simp_all
    qed
  qed
qed

text \<open>One update, when the key is absent, expired or a list.\<close>

lemma updateUserAttributionPath_step:
  assumes "0 < AttributionWindow cfg \<and> AttributionWindow cfg \<le> 9223372036"
    and "\<forall>v e. redis_lookup r now (attributionPathKey (EvUserID event)) = Some (v, e)
           \<longrightarrow> (\<exists>xs. v = RList xs)"
  shows "updateUserAttributionPath cfg now event r (attributionPathKey (EvUserID event)) =
     Some (RList (take 10 (touchpointOf event # getUserAttributionPath r now (EvUserID event))),
           Some ((now + AttributionWindow cfg) * 1000))"
proof (cases "redis_lookup r now (attributionPathKey (EvUserID event))")
  case None
  then show ?thesis
    using assms(1)
    by (simp add: updateUserAttributionPath_key getUserAttributionPath_cases formatSec_seconds)
next
  case (Some ve)
  then obtain xs e where ve: "ve = (RList xs, e)" using assms(2) by (cases ve) auto
  show ?thesis
    using assms(1) Some
    by (simp add: ve updateUserAttributionPath_key getUserAttributionPath_cases formatSec_seconds)
qed

lemma updateUserAttributionPath_other:
  assumes "k \<noteq> attributionPathKey (EvUserID event)"
  shows "updateUserAttributionPath cfg now event r k = r k"
proof -
  have a: "redis_LPush r' now k' x k = r' k" if "k \<noteq> k'" for r' k' x
    using that by (auto simp: redis_LPush_def split: option.splits prod.splits redis_value.splits)
  have b: "redis_LTrim r' now k' i j k = r' k" if "k \<noteq> k'" for r' k' i j
    using that by (auto simp: redis_LTrim_def Let_def split: option.splits prod.splits redis_value.splits)
  have c: "redis_Expire r' now k' ttl k = r' k" if "k \<noteq> k'" for r' k' ttl
    using that by (auto simp: redis_Expire_def Let_def split: option.splits prod.splits)
  show ?thesis
    using assms by (simp add: updateUserAttributionPath_def Let_def a b c)
qed

lemma updateUserAttributionPath_cap:
  "length (getUserAttributionPath (updateUserAttributionPath cfg now event r) tr (EvUserID event)) \<le> 10"
proof -
  let ?k = "attributionPathKey (EvUserID event)"
  let ?r = "updateUserAttributionPath cfg now event r"
  have "?r ?k = None \<or> (\<exists>ys e. ?r ?k = Some (RList ys, e) \<and> length ys \<le> 10)
      \<or> (\<exists>v e. ?r ?k = Some (v, e) \<and> (\<forall>xs. v \<noteq> RList xs))"
    unfolding updateUserAttributionPath_key
    by (auto split: option.splits prod.splits redis_value.splits)
  then show ?thesis
    unfolding getUserAttributionPath_cases redis_lookup_def
    by (auto split: option.splits prod.splits redis_value.splits)
qed

text \<open>With a window of 9223372037 seconds the update deletes the user's path.\<close>

lemma updateUserAttributionPath_wrapped:
  "AttributionWindow cfg = 9223372037 \<Longrightarrow>
   updateUserAttributionPath cfg now event r (attributionPathKey (EvUserID event)) = None"
  by (simp add: updateUserAttributionPath_key wrapped_duration)

lemma take_append_take: "take n (xs @ take n ys) = take n (xs @ ys)"
  by (simp add: min_def)

text \<open>A run of updates, from a state in which the path is a list that has not expired.\<close>

lemma trackAll_live:
  assumes "0 < AttributionWindow cfg \<and> AttributionWindow cfg \<le> 9223372036"
    and "r (attributionPathKey u) = Some (RList p, Some ((t + AttributionWindow cfg) * 1000))"
    and "length p \<le> 10"
    and "withinWindow cfg t calls"
    and "\<forall>c \<in> set calls. EvUserID (snd c) = u"
  shows "trackAll cfg calls r (attributionPathKey u) =
     Some (RList (take 10 (rev (map (\<lambda>c. touchpointOf (snd c)) calls) @ p)),
           Some (((if calls = [] then t else fst (last calls)) + AttributionWindow cfg) * 1000))"
  using assms(2-)
proof (induction calls arbitrary: r p t)
  case Nil
  then show ?case by simp
next
  case (Cons c calls)
  obtain now event where c: "c = (now, event)" by (cases c)
  have u: "EvUserID event = u" using Cons.prems(4) c by simp
  have live: "now < t + AttributionWindow cfg" and rest: "withinWindow cfg now calls"
    using Cons.prems(3) c by simp_all
  have look: "redis_lookup r now (attributionPathKey u)
      = Some (RList p, Some ((t + AttributionWindow cfg) * 1000))"
    using Cons.prems(1) live by (simp add: redis_lookup_def)
  let ?p = "take 10 (touchpointOf event # p)"
  let ?r = "updateUserAttributionPath cfg now event r"
  have step: "?r (attributionPathKey u) = Some (RList ?p, Some ((now + AttributionWindow cfg) * 1000))"
    using assms(1) look updateUserAttributionPath_key[of cfg now event r] unfolding u
    by (simp add: formatSec_seconds)
  have len: "length ?p \<le> 10" by simp
  have users: "\<forall>c \<in> set calls. EvUserID (snd c) = u" using Cons.prems(4) by simp
  have "trackAll cfg calls ?r (attributionPathKey u) =
     Some (RList (take 10 (rev (map (\<lambda>c. touchpointOf (snd c)) calls) @ ?p)),
           Some (((if calls = [] then now else fst (last calls)) + AttributionWindow cfg) * 1000))"
    using step len rest users by (rule Cons.IH)
  moreover have "take 10 (rev (map (\<lambda>c. touchpointOf (snd c)) calls) @ ?p)
      = take 10 (rev (map (\<lambda>c. touchpointOf (snd c)) (c # calls)) @ p)"
  proof -
    have "take 10 (rev (map (\<lambda>c. touchpointOf (snd c)) calls) @ ?p)
        = take 10 (rev (map (\<lambda>c. touchpointOf (snd c)) calls) @ touchpointOf event # p)"
      by (rule take_append_take)
    also have "\<dots> = take 10 (rev (map (\<lambda>c. touchpointOf (snd c)) (c # calls)) @ p)"
      by (simp add: c)
    finally show ?thesis .
  qed
  moreover have "trackAll cfg (c # calls) r = trackAll cfg calls ?r" by (simp add: c)
  moreover have "(if c # calls = [] then t else fst (last (c # calls)))
      = (if calls = [] then now else fst (last calls))" by (simp add: c)
  ultimately show ?case by (simp only:)
qed

lemma trackAll_path:
  assumes "0 < AttributionWindow cfg \<and> AttributionWindow cfg \<le> 9223372036" and "calls \<noteq> []"
    and "\<forall>c \<in> set calls. EvUserID (snd c) = u"
    and "\<forall>v e. redis_lookup r (fst (hd calls)) (attributionPathKey u) = Some (v, e)
           \<longrightarrow> (\<exists>xs. v = RList xs)"
    and "withinWindow cfg (fst (hd calls)) (tl calls)"
    and "tr < fst (last calls) + AttributionWindow cfg"
  shows "getUserAttributionPath (trackAll cfg calls r) tr u =
     take 10 (rev (map (\<lambda>c. touchpointOf (snd c)) calls) @ getUserAttributionPath r (fst (hd calls)) u)"
proof -
  obtain now event rest where calls: "calls = (now, event) # rest"
    using assms(2) by (cases calls) auto
  have u: "EvUserID event = u" using assms(3) calls by simp
  let ?p = "take 10 (touchpointOf event # getUserAttributionPath r now u)"
  let ?r = "updateUserAttributionPath cfg now event r"
  have step: "?r (attributionPathKey u) = Some (RList ?p, Some ((now + AttributionWindow cfg) * 1000))"
    using updateUserAttributionPath_step[OF assms(1), of r now event] assms(4) u calls by simp
  have len: "length ?p \<le> 10" by simp
  have users: "\<forall>c \<in> set rest. EvUserID (snd c) = u" using assms(3) calls by simp
  have rest: "withinWindow cfg now rest" using assms(5) calls by simp
  have "trackAll cfg rest ?r (attributionPathKey u) =
     Some (RList (take 10 (rev (map (\<lambda>c. touchpointOf (snd c)) rest) @ ?p)),
           Some (((if rest = [] then now else fst (last rest)) + AttributionWindow cfg) * 1000))"
    using assms(1) step len rest users by (rule trackAll_live)
  moreover have "(if rest = [] then now else fst (last rest)) = fst (last calls)"
    by (simp add: calls)
  moreover have "take 10 (rev (map (\<lambda>c. touchpointOf (snd c)) rest) @ ?p)
      = take 10 (rev (map (\<lambda>c. touchpointOf (snd c)) calls) @ getUserAttributionPath r now u)"
  proof -
    have "take 10 (rev (map (\<lambda>c. touchpointOf (snd c)) rest) @ ?p)
        = take 10 (rev (map (\<lambda>c. touchpointOf (snd c)) rest)
          @ touchpointOf event # getUserAttributionPath r now u)"
      by (rule take_append_take)
    also have "\<dots> = take 10 (rev (map (\<lambda>c. touchpointOf (snd c)) calls) @ getUserAttributionPath r now u)"
      by (simp add: calls)
    finally show ?thesis .
  qed
  moreover have "trackAll cfg calls r = trackAll cfg rest ?r" by (simp add: calls)
  ultimately have "trackAll cfg calls r (attributionPathKey u) =
     Some (RList (take 10 (rev (map (\<lambda>c. touchpointOf (snd c)) calls) @ getUserAttributionPath r now u)),
           Some ((fst (last calls) + AttributionWindow cfg) * 1000))"
    by (simp only:)
  then show ?thesis
    using assms(6) by (simp add: getUserAttributionPath_cases redis_lookup_def calls)
qed

text \<open>
  Claim C7. After \<^verbatim>\<open>updateUserAttributionPath\<close> the user's path has at most 10
  entries, whatever the store held and whatever the configured window (also one whose
  product with \<^verbatim>\<open>time.Second\<close> wraps), and the paths of other users are unchanged. When
  the window is positive and at most 9223372036 seconds (so that the duration passed to
  \<^verbatim>\<open>Expire\<close> is the window), the user's key holds a list or nothing, and every call comes before
  the path written by the previous one expires, the path read within the window after the
  last call is the touchpoints of the calls, most recent first, followed by the earlier
  path, cut to 10: the oldest entries are dropped first. After 15 calls it is exactly the
  10 most recent touchpoints, most recent first.
\<close>

theorem attribution_path_capped:
  "length (getUserAttributionPath (updateUserAttributionPath cfg now event r) tr (EvUserID event)) \<le> 10
   \<and> (u \<noteq> EvUserID event \<longrightarrow>
        getUserAttributionPath (updateUserAttributionPath cfg now event r) tr u
          = getUserAttributionPath r tr u)
   \<and> (0 < AttributionWindow cfg \<and> AttributionWindow cfg \<le> 9223372036 \<and> calls \<noteq> []
        \<and> (\<forall>c \<in> set calls. EvUserID (snd c) = u)
        \<and> (\<forall>v e. redis_lookup r (fst (hd calls)) (attributionPathKey u) = Some (v, e)
              \<longrightarrow> (\<exists>xs. v = RList xs))
        \<and> withinWindow cfg (fst (hd calls)) (tl calls)
        \<and> tr < fst (last calls) + AttributionWindow cfg
      \<longrightarrow> getUserAttributionPath (trackAll cfg calls r) tr u
            = take 10 (rev (map (\<lambda>c. touchpointOf (snd c)) calls)
                        @ getUserAttributionPath r (fst (hd calls)) u)
          \<and> (length calls = 15 \<longrightarrow>
                getUserAttributionPath (trackAll cfg calls r) tr u
                  = rev (map (\<lambda>c. touchpointOf (snd c)) (drop 5 calls))
              \<and> length (getUserAttributionPath (trackAll cfg calls r) tr u) = 10))"
proof -
  have cap: "length (getUserAttributionPath (updateUserAttributionPath cfg now event r) tr
      (EvUserID event)) \<le> 10"
    by (rule updateUserAttributionPath_cap)
  have frame: "getUserAttributionPath (updateUserAttributionPath cfg now event r) tr u
          = getUserAttributionPath r tr u" if "u \<noteq> EvUserID event"
  proof -
    have "attributionPathKey u \<noteq> attributionPathKey (EvUserID event)" using that by simp
    then have "updateUserAttributionPath cfg now event r (attributionPathKey u)
        = r (attributionPathKey u)"
      by (rule updateUserAttributionPath_other)
    then show ?thesis by (simp add: getUserAttributionPath_cases redis_lookup_def)
  qed
  have run: "getUserAttributionPath (trackAll cfg calls r) tr u
            = take 10 (rev (map (\<lambda>c. touchpointOf (snd c)) calls)
                        @ getUserAttributionPath r (fst (hd calls)) u)
          \<and> (length calls = 15 \<longrightarrow>
                getUserAttributionPath (trackAll cfg calls r) tr u
                  = rev (map (\<lambda>c. touchpointOf (snd c)) (drop 5 calls))
              \<and> length (getUserAttributionPath (trackAll cfg calls r) tr u) = 10)"
    if h: "0 < AttributionWindow cfg \<and> AttributionWindow cfg \<le> 9223372036" "calls \<noteq> []"
      "\<forall>c \<in> set calls. EvUserID (snd c) = u"
      "\<forall>v e. redis_lookup r (fst (hd calls)) (attributionPathKey u) = Some (v, e)
              \<longrightarrow> (\<exists>xs. v = RList xs)"
      "withinWindow cfg (fst (hd calls)) (tl calls)"
      "tr < fst (last calls) + AttributionWindow cfg"
  proof -
    let ?tps = "map (\<lambda>c. touchpointOf (snd c)) calls"
    have path: "getUserAttributionPath (trackAll cfg calls r) tr u
            = take 10 (rev ?tps @ getUserAttributionPath r (fst (hd calls)) u)"
      using h by (rule trackAll_path)
    have fifteen: "take 10 (rev ?tps @ old) = rev (map (\<lambda>c. touchpointOf (snd c)) (drop 5 calls))"
      if "length calls = 15" for old
    proof -
      have "take 10 (rev ?tps @ old) = take 10 (rev ?tps)" using that by simp
      also have "\<dots> = rev (drop 5 ?tps)" using that by (simp add: take_rev)
      finally show ?thesis by (simp add: drop_map)
    qed
    show ?thesis using path fifteen by simp
  qed
  show ?thesis using cap frame run by blast
qed

lemma touchpoint_example14: "touchpointOf (exampleEvent 1700000014) = ''A:click:1700000014''"
  by (simp add: touchpointOf_def exampleEvent_def showInt_def showNat.simps digit_def)

theorem attribution_path_capped_witness:
  "0 < AttributionWindow setDefaults \<and> AttributionWindow setDefaults \<le> 9223372036
   \<and> exampleCalls \<noteq> []
   \<and> list_all (\<lambda>c. EvUserID (snd c) = ''user-1'') exampleCalls
   \<and> redis_lookup Map.empty (fst (hd exampleCalls)) (attributionPathKey ''user-1'') = None
   \<and> withinWindow setDefaults (fst (hd exampleCalls)) (tl exampleCalls)
   \<and> 1700000020 < fst (last exampleCalls) + AttributionWindow setDefaults
   \<and> length exampleCalls = 15
   \<and> getUserAttributionPath (trackAll setDefaults exampleCalls Map.empty) 1700000020 ''user-1''
       = rev (map (\<lambda>c. touchpointOf (snd c)) (drop 5 exampleCalls))
   \<and> length (getUserAttributionPath (trackAll setDefaults exampleCalls Map.empty) 1700000020 ''user-1'')
       = 10
   \<and> hd (getUserAttributionPath (trackAll setDefaults exampleCalls Map.empty) 1700000020 ''user-1'')
       = ''A:click:1700000014''"
proof -
  have w: "0 < AttributionWindow setDefaults \<and> AttributionWindow setDefaults \<le> 9223372036"
    by (simp add: setDefaults_fields)
  have ne: "exampleCalls \<noteq> []" by (simp add: exampleCalls_def)
  have users: "\<forall>c \<in> set exampleCalls. EvUserID (snd c) = ''user-1''"
    by (simp add: exampleCalls_def exampleEvent_def)
  have key: "\<forall>v e. redis_lookup Map.empty (fst (hd exampleCalls)) (attributionPathKey ''user-1'')
      = Some (v, e) \<longrightarrow> (\<exists>xs. v = RList xs)"
    by (simp add: redis_lookup_def)
  have win: "withinWindow setDefaults (fst (hd exampleCalls)) (tl exampleCalls)"
    by (simp add: exampleCalls_def setDefaults_fields)
  have rd: "1700000020 < fst (last exampleCalls) + AttributionWindow setDefaults"
    by (simp add: exampleCalls_def setDefaults_fields)
  have len: "length exampleCalls = 15" by (simp add: exampleCalls_def)
  note t = attribution_path_capped [of setDefaults 0 "exampleEvent 0" Map.empty 1700000020
      "''user-1''" exampleCalls]
  from t w ne users key win rd len
  have p: "getUserAttributionPath (trackAll setDefaults exampleCalls Map.empty) 1700000020 ''user-1''
       = rev (map (\<lambda>c. touchpointOf (snd c)) (drop 5 exampleCalls))"
    and l: "length (getUserAttributionPath (trackAll setDefaults exampleCalls Map.empty) 1700000020 ''user-1'')
       = 10"
    by blast+
  have h: "hd (rev (map (\<lambda>c. touchpointOf (snd c)) (drop 5 exampleCalls))) = ''A:click:1700000014''"
    by (simp add: exampleCalls_def hd_rev touchpoint_example14)
  show ?thesis
    using w ne users win rd len l h unfolding p
    by (simp add: list_all_iff redis_lookup_def)
qed

text \<open>
  Claim C8, as amended. The statistics that \<^verbatim>\<open>calculateChannelStats\<close> derives from the
  day's counters are: conversion rate = conversions / clicks times 100, a percentage (0
  when clicks is 0 or less), and average order value = revenue / conversions (0 when
  conversions is 0 or less).
\<close>

theorem calculateChannelStats_derived:
  "TotalClicks (calculateChannelStats r now today channelID)
       = redis_GetInt64 r now (''clicks:'' @ channelID @ '':'' @ today)
   \<and> TotalConversions (calculateChannelStats r now today channelID)
       = redis_GetInt64 r now (''conversions:'' @ channelID @ '':'' @ today)
   \<and> TotalRevenue (calculateChannelStats r now today channelID)
       = redis_GetFloat64 r now (''revenue:'' @ channelID @ '':'' @ today)
   \<and> ConversionRate (calculateChannelStats r now today channelID)
       = (if TotalClicks (calculateChannelStats r now today channelID) > 0
          then of_int (TotalConversions (calculateChannelStats r now today channelID))
                 / of_int (TotalClicks (calculateChannelStats r now today channelID)) * 100
          else 0)
   \<and> (TotalClicks (calculateChannelStats r now today channelID) = 0
        \<longrightarrow> ConversionRate (calculateChannelStats r now today channelID) = 0)
   \<and> AverageOrderValue (calculateChannelStats r now today channelID)
       = (if TotalConversions (calculateChannelStats r now today channelID) > 0
          then TotalRevenue (calculateChannelStats r now today channelID)
                 / of_int (TotalConversions (calculateChannelStats r now today channelID))
          else 0)
   \<and> (TotalConversions (calculateChannelStats r now today channelID) = 0
        \<longrightarrow> AverageOrderValue (calculateChannelStats r now today channelID) = 0)"
  by (simp add: calculateChannelStats_def Let_def)

lemma exampleCounters_read:
  "redis_GetInt64 exampleCounters 0 (''clicks:'' @ ''A'' @ '':'' @ ''2024-01-01'') = 4"
  "redis_GetInt64 exampleCounters 0 (''conversions:'' @ ''A'' @ '':'' @ ''2024-01-01'') = 1"
  "redis_GetFloat64 exampleCounters 0 (''revenue:'' @ ''A'' @ '':'' @ ''2024-01-01'') = 50"
  by (simp_all add: exampleCounters_def redis_GetInt64_def redis_GetFloat64_def redis_lookup_def)

theorem calculateChannelStats_derived_witness:
  "TotalClicks (calculateChannelStats exampleCounters 0 ''2024-01-01'' ''A'') = 4
   \<and> TotalConversions (calculateChannelStats exampleCounters 0 ''2024-01-01'' ''A'') = 1
   \<and> ConversionRate (calculateChannelStats exampleCounters 0 ''2024-01-01'' ''A'') = 25
   \<and> AverageOrderValue (calculateChannelStats exampleCounters 0 ''2024-01-01'' ''A'') = 50
   \<and> TotalClicks (calculateChannelStats Map.empty 0 ''2024-01-01'' ''A'') = 0
   \<and> TotalConversions (calculateChannelStats Map.empty 0 ''2024-01-01'' ''A'') = 0
   \<and> ConversionRate (calculateChannelStats Map.empty 0 ''2024-01-01'' ''A'') = 0
   \<and> AverageOrderValue (calculateChannelStats Map.empty 0 ''2024-01-01'' ''A'') = 0"
proof -
  have e: "redis_GetInt64 Map.empty 0 k = 0" for k
    by (simp add: redis_GetInt64_def redis_lookup_def)
  show ?thesis
    using calculateChannelStats_derived [of exampleCounters 0 "''2024-01-01''" "''A''"]
      calculateChannelStats_derived [of Map.empty 0 "''2024-01-01''" "''A''"]
    by (simp add: exampleCounters_read e del: append.simps)
qed

text \<open>With 4 clicks and 1 conversion the conversion rate is 25, not the ratio 1/4.\<close>

theorem conversion_rate_is_percentage_counterexample:
  "TotalClicks (calculateChannelStats exampleCounters 0 ''2024-01-01'' ''A'') = 4
   \<and> TotalConversions (calculateChannelStats exampleCounters 0 ''2024-01-01'' ''A'') = 1
   \<and> ConversionRate (calculateChannelStats exampleCounters 0 ''2024-01-01'' ''A'') = 25
   \<and> ConversionRate (calculateChannelStats exampleCounters 0 ''2024-01-01'' ''A'')
       \<noteq> of_int (TotalConversions (calculateChannelStats exampleCounters 0 ''2024-01-01'' ''A''))
          / of_int (TotalClicks (calculateChannelStats exampleCounters 0 ''2024-01-01'' ''A''))"
  by (simp add: calculateChannelStats_def Let_def exampleCounters_read del: append.simps)

end
